theory Spec2Isabelle
  imports Complex_Main
begin

section \<open>The perceptron of \<open>learn_perceptron.py\<close>\<close>

text \<open>
  The numeric arrays of the program are modelled over the reals: a matrix is the list of
  its rows, a weight vector (a \<open>k x 1\<close> column in the program) is the list of its
  components. Comparisons with zero and the arithmetic of \<open>np.dot\<close> are those of
  the reals, so rounding is not part of the model. The exceptions the program can raise
  are values: \<open>ValueError\<close> is what numpy raises for operands whose shapes do not fit,
  \<open>EOFError\<close> is what \<open>input\<close> raises when no line is left to read.
\<close>

datatype error = ValueError | EOFError

type_synonym vec = "real list"

type_synonym matrix = "real list list"

text \<open>
  \<open>np.dot(x, w)\<close> for a \<open>1 x k\<close> row \<open>x\<close> and an \<open>m x 1\<close> column \<open>w\<close>:
  defined when \<open>k = m\<close>, a \<open>ValueError\<close> otherwise.
\<close>

definition dot :: "vec \<Rightarrow> vec \<Rightarrow> error + real" where
  "dot x w = (if length x = length w then Inr (sum_list (map2 (*) x w)) else Inl ValueError)"

subsection \<open>\<open>eval_perceptron\<close>\<close>

text \<open>
  The first loop of \<open>eval_perceptron\<close>, over the rows that remain, with the running
  index \<open>i\<close> and the list \<open>mistakes0\<close> built so far.
\<close>

fun eval_neg :: "matrix \<Rightarrow> vec \<Rightarrow> nat \<Rightarrow> nat list \<Rightarrow> error + nat list" where
  "eval_neg [] w i mistakes0 = Inr mistakes0"
| "eval_neg (x # rest) w i mistakes0 =
     (case dot x w of
        Inl e \<Rightarrow> Inl e
      | Inr activation \<Rightarrow>
          eval_neg rest w (i + 1) (if activation \<ge> 0 then mistakes0 @ [i] else mistakes0))"

text \<open>The second loop, over the positive examples.\<close>

fun eval_pos :: "matrix \<Rightarrow> vec \<Rightarrow> nat \<Rightarrow> nat list \<Rightarrow> error + nat list" where
  "eval_pos [] w i mistakes1 = Inr mistakes1"
| "eval_pos (x # rest) w i mistakes1 =
     (case dot x w of
        Inl e \<Rightarrow> Inl e
      | Inr activation \<Rightarrow>
          eval_pos rest w (i + 1) (if activation < 0 then mistakes1 @ [i] else mistakes1))"

definition eval_perceptron :: "matrix \<Rightarrow> matrix \<Rightarrow> vec \<Rightarrow> error + (nat list \<times> nat list)" where
  "eval_perceptron neg_examples pos_examples w =
     (case eval_neg neg_examples w 0 [] of
        Inl e \<Rightarrow> Inl e
      | Inr mistakes0 \<Rightarrow>
          (case eval_pos pos_examples w 0 [] of
             Inl e \<Rightarrow> Inl e
           | Inr mistakes1 \<Rightarrow> Inr (mistakes0, mistakes1)))"

subsection \<open>\<open>update_weights\<close>\<close>

text \<open>
  In the source, the bodies of the two \<open>if\<close> statements of \<open>update_weights\<close> are
  the placeholder \<open># YOUR CODE HERE\<close>. The loops, the activations and the two tests are
  there; what is done to \<open>w\<close> at a misclassified example is not. The model takes the
  two missing bodies as parameters: each maps the current \<open>w\<close> and the example's
  column \<open>x\<close> to the next \<open>w\<close>.
\<close>

type_synonym correction = "vec \<Rightarrow> vec \<Rightarrow> vec"

fun update_neg :: "correction \<Rightarrow> matrix \<Rightarrow> vec \<Rightarrow> error + vec" where
  "update_neg on_neg [] w = Inr w"
| "update_neg on_neg (x # rest) w =
     (case dot x w of
        Inl e \<Rightarrow> Inl e
      | Inr activation \<Rightarrow> update_neg on_neg rest (if activation \<ge> 0 then on_neg w x else w))"

fun update_pos :: "correction \<Rightarrow> matrix \<Rightarrow> vec \<Rightarrow> error + vec" where
  "update_pos on_pos [] w = Inr w"
| "update_pos on_pos (x # rest) w =
     (case dot x w of
        Inl e \<Rightarrow> Inl e
      | Inr activation \<Rightarrow> update_pos on_pos rest (if activation < 0 then on_pos w x else w))"

definition update_weights ::
  "correction \<Rightarrow> correction \<Rightarrow> matrix \<Rightarrow> matrix \<Rightarrow> vec \<Rightarrow> error + vec" where
  "update_weights on_neg on_pos neg_examples pos_examples w_current =
     (case update_neg on_neg neg_examples w_current of
        Inl e \<Rightarrow> Inl e
      | Inr w \<Rightarrow> update_pos on_pos pos_examples w)"

text \<open>
  Modelled from the spec: the two statements missing from \<open>update_weights\<close> in the
  source. The spec fixes them as \<open>w \<leftarrow> w - x\<close> for a misclassified negative example and
  \<open>w \<leftarrow> w + x\<close> for a misclassified positive one, componentwise on vectors of the same
  length.
\<close>

definition sub_example :: correction where
  "sub_example w x = map2 (-) w x"

definition add_example :: correction where
  "add_example w x = map2 (+) w x"

definition update :: "matrix \<Rightarrow> matrix \<Rightarrow> vec \<Rightarrow> error + vec" where
  "update = update_weights sub_example add_example"

subsection \<open>\<open>learn_perceptron\<close>\<close>

text \<open>
  \<open>np.append(m, np.ones((n, 1)), axis=1)\<close>: every row gets a trailing \<open>1\<close>.
\<close>

definition augment :: "matrix \<Rightarrow> matrix" where
  "augment m = map (\<lambda>row. row @ [1]) m"

text \<open>
  \<open>w - w_gen_feas\<close> for two columns, with numpy's broadcasting: columns of the same
  length are subtracted componentwise, a column of length one is stretched to the length
  of the other, and any other pair of lengths is a \<open>ValueError\<close>.
\<close>

definition np_sub :: "vec \<Rightarrow> vec \<Rightarrow> error + vec" where
  "np_sub a b =
     (if length a = length b then Inr (map2 (-) a b)
      else if length b = 1 then Inr (map (\<lambda>x. x - hd b) a)
      else if length a = 1 then Inr (map (\<lambda>y. hd a - y) b)
      else Inl ValueError)"

text \<open>\<open>np.linalg.norm\<close> of a column: the square root of the sum of the squares.\<close>

definition linalg_norm :: "vec \<Rightarrow> real" where
  "linalg_norm v = sqrt (sum_list (map (\<lambda>x. x * x) v))"

text \<open>
  \<open>if w_gen_feas.size: w_dist_history.append(np.linalg.norm(w - w_gen_feas))\<close>,
  returning the history after the statement.
\<close>

definition record_dist :: "vec \<Rightarrow> vec \<Rightarrow> real list \<Rightarrow> error + real list" where
  "record_dist w_gen_feas w w_dist_history =
     (if w_gen_feas \<noteq> [] then
        (case np_sub w w_gen_feas of
           Inl e \<Rightarrow> Inl e
         | Inr d \<Rightarrow> Inr (w_dist_history @ [linalg_norm d]))
      else Inr w_dist_history)"

text \<open>
  The calls \<open>learn_perceptron\<close> makes, in the order it makes them, are part of the state:
  the evaluator and the updater with the weight vector passed, \<open>plot_perceptron\<close> with the
  mistake lists, the error history, the weight vector and the distance history as they are
  at the call, and \<open>input\<close> with the line it returned. The example matrices passed along
  never change and are left out; so are the two \<open>print\<close> statements.

  A run that raises gives the exception together with the calls made up to it. A call of
  the evaluator or of the updater that raises is the last of them; a call of \<open>input\<close>
  that finds no line returns none and is not listed.
\<close>

datatype call =
    Eval_call vec
  | is_Update: Update_call vec
  | Plot_call (plot_mistakes0: "nat list") (plot_mistakes1: "nat list")
      (plot_num_err_history: "nat list") (plot_w: vec) (plot_w_dist_history: "real list")
  | Input_call string

text \<open>The lines \<open>input\<close> returned, in order, among a list of calls.\<close>

fun keys_read :: "call list \<Rightarrow> string list" where
  "keys_read [] = []"
| "keys_read (Input_call key # cs) = key # keys_read cs"
| "keys_read (c # cs) = keys_read cs"

record state =
  w_cur :: vec
  num_errs :: nat
  num_err_history :: "nat list"
  w_dist_history :: "real list"
  iter :: nat
  calls :: "call list"

type_synonym failure = "error \<times> call list"

text \<open>\<open>'q' in key\<close>\<close>

definition quit :: "string \<Rightarrow> bool" where
  "quit key = (CHR ''q'' \<in> set key)"

text \<open>
  The body of the \<open>while\<close> loop from \<open>iter += 1\<close> to the call of \<open>plot_perceptron\<close>.
\<close>

definition epoch ::
  "correction \<Rightarrow> correction \<Rightarrow> matrix \<Rightarrow> matrix \<Rightarrow> vec \<Rightarrow> state \<Rightarrow> failure + state" where
  "epoch on_neg on_pos neg_examples pos_examples w_gen_feas s =
     (case update_weights on_neg on_pos neg_examples pos_examples (w_cur s) of
        Inl e \<Rightarrow> Inl (e, calls s @ [Update_call (w_cur s)])
      | Inr w \<Rightarrow>
          (case record_dist w_gen_feas w (w_dist_history s) of
             Inl e \<Rightarrow> Inl (e, calls s @ [Update_call (w_cur s)])
           | Inr dists \<Rightarrow>
               (case eval_perceptron neg_examples pos_examples w of
                  Inl e \<Rightarrow> Inl (e, calls s @ [Update_call (w_cur s), Eval_call w])
                | Inr (mistakes0, mistakes1) \<Rightarrow>
                    Inr \<lparr>w_cur = w,
                         num_errs = length mistakes0 + length mistakes1,
                         num_err_history =
                           num_err_history s @ [length mistakes0 + length mistakes1],
                         w_dist_history = dists,
                         iter = iter s + 1,
                         calls = calls s @
                           [Update_call (w_cur s), Eval_call w,
                            Plot_call mistakes0 mistakes1
                              (num_err_history s @ [length mistakes0 + length mistakes1])
                              w dists]\<rparr>)))"

text \<open>
  The \<open>while\<close> loop. The lines \<open>input\<close> will return are the list \<open>keys\<close>; each
  checkpoint takes the next one, and \<open>input\<close> raises \<open>EOFError\<close> when none is left.
\<close>

fun train_loop ::
  "correction \<Rightarrow> correction \<Rightarrow> matrix \<Rightarrow> matrix \<Rightarrow> vec \<Rightarrow> string list \<Rightarrow> state
     \<Rightarrow> failure + state" where
  "train_loop on_neg on_pos neg_examples pos_examples w_gen_feas [] s =
     (if num_errs s > 0 then
        (case epoch on_neg on_pos neg_examples pos_examples w_gen_feas s of
           Inl f \<Rightarrow> Inl f
         | Inr s' \<Rightarrow> Inl (EOFError, calls s'))
      else Inr s)"
| "train_loop on_neg on_pos neg_examples pos_examples w_gen_feas (key # keys) s =
     (if num_errs s > 0 then
        (case epoch on_neg on_pos neg_examples pos_examples w_gen_feas s of
           Inl f \<Rightarrow> Inl f
         | Inr s' \<Rightarrow>
             if quit key then Inr (s'\<lparr>calls := calls s' @ [Input_call key]\<rparr>)
             else train_loop on_neg on_pos neg_examples pos_examples w_gen_feas keys
                    (s'\<lparr>calls := calls s' @ [Input_call key]\<rparr>))
      else Inr s)"

text \<open>
  \<open>if w_init.size: w = w_init else: w = np.random.randn(3,1)\<close>
\<close>

definition initial_weights :: "vec \<Rightarrow> real \<times> real \<times> real \<Rightarrow> vec" where
  "initial_weights w_init randn =
     (if w_init \<noteq> [] then w_init else (case randn of (a, b, c) \<Rightarrow> [a, b, c]))"

text \<open>
  \<open>learn_perceptron\<close>. The draw of \<open>np.random.randn(3,1)\<close> is the parameter
  \<open>randn\<close>. The program returns \<open>w\<close>; the model returns the whole final state, of
  which \<open>w_cur\<close> is the value returned.
\<close>

definition learn_perceptron ::
  "correction \<Rightarrow> correction \<Rightarrow> real \<times> real \<times> real \<Rightarrow> string list
     \<Rightarrow> matrix \<Rightarrow> matrix \<Rightarrow> vec \<Rightarrow> vec \<Rightarrow> failure + state" where
  "learn_perceptron on_neg on_pos randn keys
       neg_examples_nobias pos_examples_nobias w_init w_gen_feas =
     (let neg_examples = augment neg_examples_nobias;
          pos_examples = augment pos_examples_nobias;
          w = initial_weights w_init randn
      in case eval_perceptron neg_examples pos_examples w of
           Inl e \<Rightarrow> Inl (e, [Eval_call w])
         | Inr (mistakes0, mistakes1) \<Rightarrow>
             (case keys of
                [] \<Rightarrow>
                  Inl (EOFError,
                       [Eval_call w,
                        Plot_call mistakes0 mistakes1
                          [length mistakes0 + length mistakes1] w []])
              | key # rest \<Rightarrow>
                  if quit key then
                    Inr \<lparr>w_cur = w,
                         num_errs = length mistakes0 + length mistakes1,
                         num_err_history = [length mistakes0 + length mistakes1],
                         w_dist_history = [],
                         iter = 0,
                         calls =
                           [Eval_call w,
                            Plot_call mistakes0 mistakes1
                              [length mistakes0 + length mistakes1] w [],
                            Input_call key]\<rparr>
                  else
                    (case record_dist w_gen_feas w [] of
                       Inl e \<Rightarrow>
                         Inl (e,
                              [Eval_call w,
                               Plot_call mistakes0 mistakes1
                                 [length mistakes0 + length mistakes1] w [],
                               Input_call key])
                     | Inr dists \<Rightarrow>
                         train_loop on_neg on_pos neg_examples pos_examples w_gen_feas rest
                           \<lparr>w_cur = w,
                            num_errs = length mistakes0 + length mistakes1,
                            num_err_history = [length mistakes0 + length mistakes1],
                            w_dist_history = dists,
                            iter = 0,
                            calls =
                              [Eval_call w,
                               Plot_call mistakes0 mistakes1
                                 [length mistakes0 + length mistakes1] w [],
                               Input_call key]\<rparr>)))"

text \<open>
  \<open>n\<close> calls of \<open>update_weights\<close> in a row, each on the weight vector the call before
  returned: the weights the loop holds after \<open>n\<close> epochs.
\<close>

fun sweeps ::
  "correction \<Rightarrow> correction \<Rightarrow> matrix \<Rightarrow> matrix \<Rightarrow> nat \<Rightarrow> vec \<Rightarrow> error + vec" where
  "sweeps on_neg on_pos neg_examples pos_examples 0 w = Inr w"
| "sweeps on_neg on_pos neg_examples pos_examples (Suc n) w =
     (case update_weights on_neg on_pos neg_examples pos_examples w of
        Inl e \<Rightarrow> Inl e
      | Inr w' \<Rightarrow> sweeps on_neg on_pos neg_examples pos_examples n w')"

subsection \<open>The sweep in the spec's words\<close>

text \<open>
  The spec describes the updater as one sweep: the negative examples in index order, each
  corrected by \<open>w \<leftarrow> w - x\<close> when its activation against the running \<open>w\<close> is
  \<open>\<ge> 0\<close>, then the positive examples in index order, each corrected by
  \<open>w \<leftarrow> w + x\<close> when its activation is \<open>< 0\<close>. These definitions follow that
  wording, as a left fold, to be compared with \<open>update\<close>.
\<close>

definition activation_of :: "vec \<Rightarrow> vec \<Rightarrow> real" where
  "activation_of x w = sum_list (map2 (*) x w)"

definition correct_negative :: "vec \<Rightarrow> vec \<Rightarrow> vec" where
  "correct_negative w x = (if activation_of x w \<ge> 0 then map2 (-) w x else w)"

definition correct_positive :: "vec \<Rightarrow> vec \<Rightarrow> vec" where
  "correct_positive w x = (if activation_of x w < 0 then map2 (+) w x else w)"

definition one_sweep :: "matrix \<Rightarrow> matrix \<Rightarrow> vec \<Rightarrow> vec" where
  "one_sweep negatives positives w = foldl correct_positive (foldl correct_negative w negatives) positives"

text \<open>
  \<open>n\<close> applications of the updater, each on the weight vector the one before returned.
\<close>

fun epochs :: "nat \<Rightarrow> matrix \<Rightarrow> matrix \<Rightarrow> vec \<Rightarrow> error + vec" where
  "epochs 0 neg_examples pos_examples w = Inr w"
| "epochs (Suc n) neg_examples pos_examples w =
     (case update neg_examples pos_examples w of
        Inl e \<Rightarrow> Inl e
      | Inr w' \<Rightarrow> epochs n neg_examples pos_examples w')"


section \<open>Properties of the evaluator\<close>

lemma dot_ok: "length x = length w \<Longrightarrow> dot x w = Inr (sum_list (map2 (*) x w))"
  by (simp add: dot_def)

lemma eval_neg_returns:
  "\<forall>x\<in>set xs. length x = length w \<Longrightarrow> \<exists>ms. eval_neg xs w i acc = Inr ms"
  by (induction xs arbitrary: i acc) (simp_all add: dot_ok)

lemma eval_pos_returns:
  "\<forall>x\<in>set xs. length x = length w \<Longrightarrow> \<exists>ms. eval_pos xs w i acc = Inr ms"
  by (induction xs arbitrary: i acc) (simp_all add: dot_ok)

lemma eval_neg_mem:
  "eval_neg xs w i acc = Inr ms \<Longrightarrow>
   k \<in> set ms \<longleftrightarrow> k \<in> set acc \<or> (i \<le> k \<and> k < i + length xs \<and> (\<exists>a. dot (xs ! (k - i)) w = Inr a \<and> a \<ge> 0))"
proof (induction xs arbitrary: i acc)
  case Nil
  then show ?case by auto
next
  case (Cons x rest)
  from Cons.prems obtain a where a: "dot x w = Inr a"
    and rec: "eval_neg rest w (i + 1) (if a \<ge> 0 then acc @ [i] else acc) = Inr ms"
    by (auto split: sum.splits)
  have nth: "k > i \<Longrightarrow> (x # rest) ! (k - i) = rest ! (k - (i + 1))"
    by (simp add: nth_Cons')
  show ?case
    unfolding Cons.IH [OF rec]
    using a nth by (cases "k = i") (auto)
qed

lemma eval_pos_mem:
  "eval_pos xs w i acc = Inr ms \<Longrightarrow>
   k \<in> set ms \<longleftrightarrow> k \<in> set acc \<or> (i \<le> k \<and> k < i + length xs \<and> (\<exists>a. dot (xs ! (k - i)) w = Inr a \<and> a < 0))"
proof (induction xs arbitrary: i acc)
  case Nil
  then show ?case by auto
next
  case (Cons x rest)
  from Cons.prems obtain a where a: "dot x w = Inr a"
    and rec: "eval_pos rest w (i + 1) (if a < 0 then acc @ [i] else acc) = Inr ms"
    by (auto split: sum.splits)
  have nth: "k > i \<Longrightarrow> (x # rest) ! (k - i) = rest ! (k - (i + 1))"
    by (simp add: nth_Cons')
  show ?case
    unfolding Cons.IH [OF rec]
    using a nth by (cases "k = i") (auto)
qed

lemma eval_neg_sorted:
  "eval_neg xs w i acc = Inr ms \<Longrightarrow> sorted_wrt (<) acc \<Longrightarrow> \<forall>k\<in>set acc. k < i \<Longrightarrow>
   sorted_wrt (<) ms \<and> (\<forall>k\<in>set ms. k < i + length xs)"
proof (induction xs arbitrary: i acc)
  case Nil
  then show ?case by auto
next
  case (Cons x rest)
  from Cons.prems(1) obtain a where a: "dot x w = Inr a"
    and rec: "eval_neg rest w (i + 1) (if a \<ge> 0 then acc @ [i] else acc) = Inr ms"
    by (auto split: sum.splits)
  let ?acc = "if a \<ge> 0 then acc @ [i] else acc"
  have s: "sorted_wrt (<) ?acc" using Cons.prems(2,3) by (simp add: sorted_wrt_append)
  have b: "\<forall>k\<in>set ?acc. k < i + 1" using Cons.prems(3) by (auto simp: less_Suc_eq)
  from Cons.IH [OF rec s b] show ?case by simp
qed

lemma eval_pos_sorted:
  "eval_pos xs w i acc = Inr ms \<Longrightarrow> sorted_wrt (<) acc \<Longrightarrow> \<forall>k\<in>set acc. k < i \<Longrightarrow>
   sorted_wrt (<) ms \<and> (\<forall>k\<in>set ms. k < i + length xs)"
proof (induction xs arbitrary: i acc)
  case Nil
  then show ?case by auto
next
  case (Cons x rest)
  from Cons.prems(1) obtain a where a: "dot x w = Inr a"
    and rec: "eval_pos rest w (i + 1) (if a < 0 then acc @ [i] else acc) = Inr ms"
    by (auto split: sum.splits)
  let ?acc = "if a < 0 then acc @ [i] else acc"
  have s: "sorted_wrt (<) ?acc" using Cons.prems(2,3) by (simp add: sorted_wrt_append)
  have b: "\<forall>k\<in>set ?acc. k < i + 1" using Cons.prems(3) by (auto simp: less_Suc_eq)
  from Cons.IH [OF rec s b] show ?case by simp
qed

lemma eval_perceptron_returns:
  assumes "\<forall>x\<in>set (neg_examples @ pos_examples). length x = length w"
  shows "\<exists>mistakes0 mistakes1. eval_perceptron neg_examples pos_examples w = Inr (mistakes0, mistakes1)"
proof -
  from assms obtain m0 where m0: "eval_neg neg_examples w 0 [] = Inr m0"
    using eval_neg_returns [of neg_examples w 0 "[]"] by auto
  from assms obtain m1 where m1: "eval_pos pos_examples w 0 [] = Inr m1"
    using eval_pos_returns [of pos_examples w 0 "[]"] by auto
  show ?thesis by (simp add: eval_perceptron_def m0 m1)
qed

lemma eval_perceptron_Inr:
  "eval_perceptron neg_examples pos_examples w = Inr (m0, m1) \<longleftrightarrow>
     eval_neg neg_examples w 0 [] = Inr m0 \<and> eval_pos pos_examples w 0 [] = Inr m1"
  by (auto simp: eval_perceptron_def split: sum.splits)

text \<open>
  Claim C2. When every example has as many components as \<open>w\<close>, \<open>eval_perceptron\<close>
  returns, and a negative example's index is in \<open>mistakes0\<close> exactly when its activation
  is \<open>\<ge> 0\<close>, a positive example's index is in \<open>mistakes1\<close> exactly when its activation is
  \<open>< 0\<close>; in particular an activation of exactly \<open>0\<close> is a mistake for a negative example
  and none for a positive one.
\<close>

theorem eval_perceptron_mistakes:
  assumes "\<forall>x\<in>set (neg_examples @ pos_examples). length x = length w"
  shows "\<exists>mistakes0 mistakes1.
     eval_perceptron neg_examples pos_examples w = Inr (mistakes0, mistakes1) \<and>
     (\<forall>i<length neg_examples.
        (i \<in> set mistakes0 \<longleftrightarrow> (\<exists>a. dot (neg_examples ! i) w = Inr a \<and> a \<ge> 0)) \<and>
        (dot (neg_examples ! i) w = Inr 0 \<longrightarrow> i \<in> set mistakes0)) \<and>
     (\<forall>i<length pos_examples.
        (i \<in> set mistakes1 \<longleftrightarrow> (\<exists>a. dot (pos_examples ! i) w = Inr a \<and> a < 0)) \<and>
        (dot (pos_examples ! i) w = Inr 0 \<longrightarrow> i \<notin> set mistakes1))"
proof -
  from eval_perceptron_returns [OF assms] obtain m0 m1
    where ev: "eval_perceptron neg_examples pos_examples w = Inr (m0, m1)" by blast
  then have n: "eval_neg neg_examples w 0 [] = Inr m0" and p: "eval_pos pos_examples w 0 [] = Inr m1"
    by (simp_all add: eval_perceptron_Inr)
  have "\<forall>i<length neg_examples.
        (i \<in> set m0 \<longleftrightarrow> (\<exists>a. dot (neg_examples ! i) w = Inr a \<and> a \<ge> 0)) \<and>
        (dot (neg_examples ! i) w = Inr 0 \<longrightarrow> i \<in> set m0)"
    using eval_neg_mem [OF n] by simp
  moreover have "\<forall>i<length pos_examples.
        (i \<in> set m1 \<longleftrightarrow> (\<exists>a. dot (pos_examples ! i) w = Inr a \<and> a < 0)) \<and>
        (dot (pos_examples ! i) w = Inr 0 \<longrightarrow> i \<notin> set m1)"
    using eval_pos_mem [OF p] by simp
  ultimately show ?thesis using ev by blast
qed

theorem eval_perceptron_mistakes_witness:
  "eval_perceptron [[1, 1, 1], [-1, -1, 1]] [[1, 1, 1], [2, 0, 1]] [1, 1, -2] = Inr ([0], []) \<and>
   dot [1, 1, 1] [1, 1, -2] = Inr 0"
proof -
  have h: "\<forall>x\<in>set ([[1, 1, 1], [-1, -1, 1 :: real]] @ [[1, 1, 1], [2, 0, 1]]). length x = length [1, 1, -2 :: real]"
    by simp
  from eval_perceptron_mistakes [OF h] show ?thesis
    by (simp add: eval_perceptron_def dot_def)
qed

text \<open>
  Claim C3. Both lists returned by \<open>eval_perceptron\<close> are strictly ascending, and every
  index in a list is below the number of examples of its class.
\<close>

theorem eval_perceptron_ascending:
  assumes "\<forall>x\<in>set (neg_examples @ pos_examples). length x = length w"
  shows "\<exists>mistakes0 mistakes1.
     eval_perceptron neg_examples pos_examples w = Inr (mistakes0, mistakes1) \<and>
     sorted_wrt (<) mistakes0 \<and> (\<forall>i\<in>set mistakes0. i < length neg_examples) \<and>
     sorted_wrt (<) mistakes1 \<and> (\<forall>i\<in>set mistakes1. i < length pos_examples)"
proof -
  from eval_perceptron_returns [OF assms] obtain m0 m1
    where ev: "eval_perceptron neg_examples pos_examples w = Inr (m0, m1)" by blast
  then have n: "eval_neg neg_examples w 0 [] = Inr m0" and p: "eval_pos pos_examples w 0 [] = Inr m1"
    by (simp_all add: eval_perceptron_Inr)
  from eval_neg_sorted [OF n] eval_pos_sorted [OF p] ev show ?thesis by simp
qed

theorem eval_perceptron_ascending_witness:
  "eval_perceptron [[1, 1, 1], [-1, -1, 1], [0, 3, 1]] [[-2, 0, 1], [2, 0, 1], [-3, -3, 1]] [1, 1, -2]
     = Inr ([0, 2], [0, 2])"
proof -
  have h: "\<forall>x\<in>set ([[1, 1, 1], [-1, -1, 1], [0, 3, 1 :: real]] @ [[-2, 0, 1], [2, 0, 1], [-3, -3, 1]]).
      length x = length [1, 1, -2 :: real]"
    by simp
  from eval_perceptron_ascending [OF h] show ?thesis
    by (simp add: eval_perceptron_def dot_def)
qed

section \<open>Properties of the updater\<close>

lemma length_correct_negative: "length x = length w \<Longrightarrow> length (correct_negative w x) = length w"
  by (simp add: correct_negative_def)

lemma length_correct_positive: "length x = length w \<Longrightarrow> length (correct_positive w x) = length w"
  by (simp add: correct_positive_def)

lemma length_foldl_correct_negative:
  "\<forall>x\<in>set xs. length x = length w \<Longrightarrow> length (foldl correct_negative w xs) = length w"
  by (induction xs arbitrary: w) (simp_all add: length_correct_negative)

lemma update_neg_sweep:
  "\<forall>x\<in>set xs. length x = length w \<Longrightarrow>
   update_neg sub_example xs w = Inr (foldl correct_negative w xs)"
proof (induction xs arbitrary: w)
  case Nil
  then show ?case by simp
next
  case (Cons x rest)
  then have len: "length x = length w" by simp
  have step: "(if sum_list (map2 (*) x w) \<ge> 0 then sub_example w x else w) = correct_negative w x"
    by (simp add: correct_negative_def activation_of_def sub_example_def)
  have "\<forall>y\<in>set rest. length y = length (correct_negative w x)"
    using Cons.prems by (simp add: length_correct_negative)
  from Cons.IH [OF this] show ?case
    by (simp add: dot_ok [OF len] step)
qed

lemma update_pos_sweep:
  "\<forall>x\<in>set xs. length x = length w \<Longrightarrow>
   update_pos add_example xs w = Inr (foldl correct_positive w xs)"
proof (induction xs arbitrary: w)
  case Nil
  then show ?case by simp
next
  case (Cons x rest)
  then have len: "length x = length w" by simp
  have step: "(if sum_list (map2 (*) x w) < 0 then add_example w x else w) = correct_positive w x"
    by (simp add: correct_positive_def activation_of_def add_example_def)
  have "\<forall>y\<in>set rest. length y = length (correct_positive w x)"
    using Cons.prems by (simp add: length_correct_positive)
  from Cons.IH [OF this] show ?case
    by (simp add: dot_ok [OF len] step)
qed

text \<open>
  Claim C1. With the two corrections the spec fixes, the updater is exactly one sweep in
  the spec's sense: negatives first, then positives, each in index order, each activation
  taken against the weight vector as the corrections before it left it.
\<close>

theorem update_is_one_sweep:
  assumes "\<forall>x\<in>set (neg_examples @ pos_examples). length x = length w"
  shows "update neg_examples pos_examples w = Inr (one_sweep neg_examples pos_examples w)"
proof -
  have n: "update_neg sub_example neg_examples w = Inr (foldl correct_negative w neg_examples)"
    using assms by (intro update_neg_sweep) simp
  have "length (foldl correct_negative w neg_examples) = length w"
    using assms by (intro length_foldl_correct_negative) simp
  then have "\<forall>x\<in>set pos_examples. length x = length (foldl correct_negative w neg_examples)"
    using assms by simp
  from update_pos_sweep [OF this] show ?thesis
    by (simp add: update_def update_weights_def n one_sweep_def)
qed

theorem update_is_one_sweep_witness:
  "update [[1, 0, 1], [2, 0, 1]] [[0, 1, 1]] [0, 0, 0] = Inr [-1, 1, 0] \<and>
   one_sweep [[1, 0, 1], [2, 0, 1]] [[0, 1, 1]] [0, 0, 0] = [-1, 1, 0]"
proof -
  have h: "\<forall>x\<in>set ([[1, 0, 1], [2, 0, 1 :: real]] @ [[0, 1, 1]]). length x = length [0, 0, 0 :: real]"
    by simp
  from update_is_one_sweep [OF h] show ?thesis
    by (simp add: one_sweep_def correct_negative_def correct_positive_def activation_of_def)
qed

text \<open>
  Claim C4. For negatives \<open>{(-1,-1)}\<close>, positives \<open>{(1,1)}\<close>, both augmented, and the
  initial weights \<open>(0,0,0)\<close>, some number \<open>n \<le> 20\<close> of applications of the updater gives
  a weight vector on which \<open>eval_perceptron\<close> finds no mistake.
\<close>

theorem separable_converges:
  "\<exists>n\<le>20. \<exists>w.
     epochs n (augment [[-1, -1]]) (augment [[1, 1]]) [0, 0, 0] = Inr w \<and>
     eval_perceptron (augment [[-1, -1]]) (augment [[1, 1]]) w = Inr ([], [])"
proof -
  have "epochs 1 (augment [[-1, -1]]) (augment [[1, 1]]) [0, 0, 0] = Inr [1, 1, -1]"
    by (simp add: augment_def update_def update_weights_def dot_def sub_example_def add_example_def)
  moreover have "eval_perceptron (augment [[-1, -1]]) (augment [[1, 1]]) [1, 1, -1] = Inr ([], [])"
    by (simp add: augment_def eval_perceptron_def dot_def)
  ultimately show ?thesis by (intro exI [of _ 1]) simp
qed

section \<open>Properties of the training loop\<close>

lemma keys_read_append: "keys_read (cs @ ds) = keys_read cs @ keys_read ds"
  by (induction cs rule: keys_read.induct) simp_all

lemma epoch_Inr:
  assumes "epoch on_neg on_pos neg_examples pos_examples w_gen_feas s = Inr s'"
  shows "\<exists>mistakes0 mistakes1.
     update_weights on_neg on_pos neg_examples pos_examples (w_cur s) = Inr (w_cur s') \<and>
     record_dist w_gen_feas (w_cur s') (w_dist_history s) = Inr (w_dist_history s') \<and>
     eval_perceptron neg_examples pos_examples (w_cur s') = Inr (mistakes0, mistakes1) \<and>
     num_errs s' = length mistakes0 + length mistakes1 \<and>
     num_err_history s' = num_err_history s @ [num_errs s'] \<and>
     iter s' = iter s + 1 \<and>
     calls s' = calls s @
       [Update_call (w_cur s), Eval_call (w_cur s'),
        Plot_call mistakes0 mistakes1 (num_err_history s') (w_cur s') (w_dist_history s')]"
  using assms unfolding epoch_def
  by (auto split: sum.splits prod.splits)

lemma record_dist_Inr:
  "record_dist w_gen_feas w h = Inr h' \<Longrightarrow>
     (w_gen_feas = [] \<and> h' = h) \<or>
     (w_gen_feas \<noteq> [] \<and> (\<exists>d. np_sub w w_gen_feas = Inr d \<and> h' = h @ [linalg_norm d]))"
  by (auto simp: record_dist_def split: if_splits sum.splits)

lemma train_loop_Inr:
  assumes "train_loop on_neg on_pos neg_examples pos_examples w_gen_feas keys s = Inr s'"
  shows "(num_errs s = 0 \<and> s' = s) \<or>
     (num_errs s > 0 \<and>
      (\<exists>key rest s1. keys = key # rest \<and>
         epoch on_neg on_pos neg_examples pos_examples w_gen_feas s = Inr s1 \<and>
         (if quit key then s' = s1\<lparr>calls := calls s1 @ [Input_call key]\<rparr>
          else train_loop on_neg on_pos neg_examples pos_examples w_gen_feas rest
                 (s1\<lparr>calls := calls s1 @ [Input_call key]\<rparr>) = Inr s')))"
  using assms by (cases keys) (auto split: if_splits sum.splits)

lemma train_loop_history_length:
  assumes "train_loop on_neg on_pos neg_examples pos_examples w_gen_feas keys s = Inr s'"
    and "length (num_err_history s) = iter s + 1"
    and "length (filter is_Update (calls s)) = iter s"
  shows "length (num_err_history s') = iter s' + 1 \<and> length (filter is_Update (calls s')) = iter s'"
  using assms
proof (induction keys arbitrary: s)
  case Nil
  from train_loop_Inr [OF Nil.prems(1)] Nil.prems(2,3) show ?case by auto
next
  case (Cons key rest)
  from train_loop_Inr [OF Cons.prems(1)] show ?case
  proof (elim disjE conjE exE)
    assume "s' = s" then show ?thesis using Cons.prems by simp
  next
    fix k r s1
    assume kr: "key # rest = k # r"
      and ep: "epoch on_neg on_pos neg_examples pos_examples w_gen_feas s = Inr s1"
      and rest: "if quit k then s' = s1\<lparr>calls := calls s1 @ [Input_call k]\<rparr>
          else train_loop on_neg on_pos neg_examples pos_examples w_gen_feas r
                 (s1\<lparr>calls := calls s1 @ [Input_call k]\<rparr>) = Inr s'"
    let ?s2 = "s1\<lparr>calls := calls s1 @ [Input_call k]\<rparr>"
    from epoch_Inr [OF ep] obtain m0 m1 where
      h: "num_err_history s1 = num_err_history s @ [num_errs s1]" and i: "iter s1 = iter s + 1"
      and c: "calls s1 = calls s @ [Update_call (w_cur s), Eval_call (w_cur s1),
        Plot_call m0 m1 (num_err_history s1) (w_cur s1) (w_dist_history s1)]"
      by blast
    have a: "length (num_err_history ?s2) = iter ?s2 + 1"
      using h i Cons.prems(2) by simp
    have b: "length (filter is_Update (calls ?s2)) = iter ?s2"
      using c i Cons.prems(3) by simp
    show ?thesis
    proof (cases "quit k")
      case True
      with rest a b show ?thesis by simp
    next
      case False
      with rest kr have "train_loop on_neg on_pos neg_examples pos_examples w_gen_feas rest ?s2 = Inr s'"
        by simp
      from Cons.IH [OF this a b] show ?thesis .
    qed
  qed
qed

lemma learn_perceptron_Inr:
  assumes "learn_perceptron on_neg on_pos randn keys neg_examples_nobias pos_examples_nobias
             w_init w_gen_feas = Inr s"
  shows "\<exists>mistakes0 mistakes1 key rest.
     keys = key # rest \<and>
     eval_perceptron (augment neg_examples_nobias) (augment pos_examples_nobias)
       (initial_weights w_init randn) = Inr (mistakes0, mistakes1) \<and>
     (if quit key then
        s = \<lparr>w_cur = initial_weights w_init randn,
             num_errs = length mistakes0 + length mistakes1,
             num_err_history = [length mistakes0 + length mistakes1],
             w_dist_history = [],
             iter = 0,
             calls = [Eval_call (initial_weights w_init randn),
                      Plot_call mistakes0 mistakes1 [length mistakes0 + length mistakes1]
                        (initial_weights w_init randn) [],
                      Input_call key]\<rparr>
      else
        (\<exists>dists. record_dist w_gen_feas (initial_weights w_init randn) [] = Inr dists \<and>
           train_loop on_neg on_pos (augment neg_examples_nobias) (augment pos_examples_nobias)
             w_gen_feas rest
             \<lparr>w_cur = initial_weights w_init randn,
              num_errs = length mistakes0 + length mistakes1,
              num_err_history = [length mistakes0 + length mistakes1],
              w_dist_history = dists,
              iter = 0,
              calls = [Eval_call (initial_weights w_init randn),
                       Plot_call mistakes0 mistakes1 [length mistakes0 + length mistakes1]
                         (initial_weights w_init randn) [],
                       Input_call key]\<rparr> = Inr s))"
  using assms unfolding learn_perceptron_def Let_def
  by (auto split: sum.splits prod.splits list.splits if_splits)

text \<open>
  Claim C5. When \<open>learn_perceptron\<close> returns, \<open>iter\<close> is the number of update
  epochs it completed, which is also the number of calls of the updater, and the error
  history has exactly one entry more: the one of the evaluation before the first update.
\<close>

theorem history_length:
  assumes "learn_perceptron on_neg on_pos randn keys neg_examples_nobias pos_examples_nobias
             w_init w_gen_feas = Inr s"
  shows "length (num_err_history s) = iter s + 1 \<and> length (filter is_Update (calls s)) = iter s"
proof -
  from learn_perceptron_Inr [OF assms] obtain m0 m1 key rest where
    run: "if quit key then
        s = \<lparr>w_cur = initial_weights w_init randn,
             num_errs = length m0 + length m1,
             num_err_history = [length m0 + length m1],
             w_dist_history = [],
             iter = 0,
             calls = [Eval_call (initial_weights w_init randn),
                      Plot_call m0 m1 [length m0 + length m1]
                        (initial_weights w_init randn) [],
                      Input_call key]\<rparr>
      else
        (\<exists>dists. record_dist w_gen_feas (initial_weights w_init randn) [] = Inr dists \<and>
           train_loop on_neg on_pos (augment neg_examples_nobias) (augment pos_examples_nobias)
             w_gen_feas rest
             \<lparr>w_cur = initial_weights w_init randn,
              num_errs = length m0 + length m1,
              num_err_history = [length m0 + length m1],
              w_dist_history = dists,
              iter = 0,
              calls = [Eval_call (initial_weights w_init randn),
                       Plot_call m0 m1 [length m0 + length m1]
                         (initial_weights w_init randn) [],
                       Input_call key]\<rparr> = Inr s)"
    by blast
  show ?thesis
  proof (cases "quit key")
    case True
    with run show ?thesis by simp
  next
    case False
    with run obtain dists where
      "train_loop on_neg on_pos (augment neg_examples_nobias) (augment pos_examples_nobias)
             w_gen_feas rest
             \<lparr>w_cur = initial_weights w_init randn,
              num_errs = length m0 + length m1,
              num_err_history = [length m0 + length m1],
              w_dist_history = dists,
              iter = 0,
              calls = [Eval_call (initial_weights w_init randn),
                       Plot_call m0 m1 [length m0 + length m1]
                         (initial_weights w_init randn) [],
                       Input_call key]\<rparr> = Inr s"
      by auto
    from train_loop_history_length [OF this] show ?thesis by simp
  qed
qed

lemma run_example:
  "learn_perceptron sub_example add_example (0, 0, 0) ['''', ''''] [[-1, -1]] [[1, 1]] [0, 0, 0] [] =
     Inr \<lparr>w_cur = [1, 1, -1], num_errs = 0, num_err_history = [1, 0], w_dist_history = [],
          iter = 1,
          calls = [Eval_call [0, 0, 0], Plot_call [0] [] [1] [0, 0, 0] [], Input_call '''',
                   Update_call [0, 0, 0], Eval_call [1, 1, -1],
                   Plot_call [] [] [1, 0] [1, 1, -1] [], Input_call '''']\<rparr>"
  by (simp add: learn_perceptron_def initial_weights_def augment_def eval_perceptron_def dot_def
      quit_def record_dist_def epoch_def update_weights_def sub_example_def add_example_def Let_def)

theorem history_length_witness:
  "\<exists>s. learn_perceptron sub_example add_example (0, 0, 0) ['''', ''''] [[-1, -1]] [[1, 1]]
          [0, 0, 0] [] = Inr s \<and>
       length (num_err_history s) = 2 \<and> iter s = 1"
proof -
  from history_length [OF run_example] show ?thesis
    by (simp add: run_example)
qed

lemma augment_shapes:
  "\<forall>x\<in>set (negs @ poss). length x + 1 = n \<Longrightarrow> \<forall>x\<in>set (augment negs @ augment poss). length x = n"
  by (auto simp: augment_def)

text \<open>
  Claim C6. With a non-empty \<open>w_init\<close> whose length fits the augmented examples, a
  quit line at the first checkpoint makes \<open>learn_perceptron\<close> return \<open>w_init\<close> itself,
  with an error history of one entry and no call of the updater.
\<close>

theorem quit_at_first_checkpoint:
  assumes "w_init \<noteq> []" and "quit key"
    and "\<forall>x\<in>set (neg_examples_nobias @ pos_examples_nobias). length x + 1 = length w_init"
  shows "\<exists>s. learn_perceptron on_neg on_pos randn (key # keys)
                neg_examples_nobias pos_examples_nobias w_init w_gen_feas = Inr s \<and>
             w_cur s = w_init \<and> length (num_err_history s) = 1 \<and>
             filter is_Update (calls s) = [] \<and> iter s = 0"
proof -
  have w: "initial_weights w_init randn = w_init"
    using assms(1) by (simp add: initial_weights_def)
  from eval_perceptron_returns [OF augment_shapes [OF assms(3)]] obtain m0 m1 where
    "eval_perceptron (augment neg_examples_nobias) (augment pos_examples_nobias) w_init = Inr (m0, m1)"
    by blast
  then show ?thesis
    using assms(2) by (simp add: learn_perceptron_def w)
qed

theorem quit_at_first_checkpoint_witness:
  "\<exists>s. learn_perceptron sub_example add_example (0, 0, 0) [''q''] [[-1, -1]] [[1, 1]] [0, 0, 0] [] = Inr s \<and>
       w_cur s = [0, 0, 0] \<and> length (num_err_history s) = 1 \<and>
       filter is_Update (calls s) = [] \<and> iter s = 0"
proof -
  have a: "[0, 0, 0 :: real] \<noteq> []" by simp
  have b: "quit ''q''" by (simp add: quit_def)
  have c: "\<forall>x\<in>set ([[-1, -1]] @ [[1, 1 :: real]]). length x + 1 = length [0, 0, 0 :: real]" by simp
  from quit_at_first_checkpoint [OF a b c, of sub_example add_example "(0, 0, 0)" "[]" "[]"]
  show ?thesis .
qed

text \<open>
  Claim C10. With a feasible vector supplied, a quit line at the first checkpoint makes
  \<open>learn_perceptron\<close> return with an empty distance history and an error history of one
  entry.
\<close>

theorem quit_leaves_no_distance:
  assumes "w_gen_feas \<noteq> []" and "quit key"
    and "\<forall>x\<in>set (neg_examples_nobias @ pos_examples_nobias).
           length x + 1 = length (initial_weights w_init randn)"
  shows "\<exists>s. learn_perceptron on_neg on_pos randn (key # keys)
                neg_examples_nobias pos_examples_nobias w_init w_gen_feas = Inr s \<and>
             w_dist_history s = [] \<and> length (num_err_history s) = 1"
proof -
  from eval_perceptron_returns [OF augment_shapes [OF assms(3)]] obtain m0 m1 where
    "eval_perceptron (augment neg_examples_nobias) (augment pos_examples_nobias)
       (initial_weights w_init randn) = Inr (m0, m1)"
    by blast
  then show ?thesis
    using assms(2) by (simp add: learn_perceptron_def Let_def)
qed

theorem quit_leaves_no_distance_witness:
  "\<exists>s. learn_perceptron sub_example add_example (0, 0, 0) [''q''] [[-1, -1]] [[1, 1]] [0, 0, 0] [1, 1, -1]
         = Inr s \<and>
       w_dist_history s = [] \<and> length (num_err_history s) = 1"
proof -
  have a: "[1, 1, -1 :: real] \<noteq> []" by simp
  have b: "quit ''q''" by (simp add: quit_def)
  have c: "\<forall>x\<in>set ([[-1, -1]] @ [[1, 1 :: real]]).
             length x + 1 = length (initial_weights [0, 0, 0] (0, 0, 0))"
    by (simp add: initial_weights_def)
  from quit_leaves_no_distance [OF a b c, of sub_example add_example "[]"]
  show ?thesis .
qed








lemma train_loop_extends:
  assumes "train_loop on_neg on_pos neg_examples pos_examples w_gen_feas keys s = Inr s'"
  shows "(\<exists>cs. calls s' = calls s @ cs) \<and> (\<exists>ds. w_dist_history s' = w_dist_history s @ ds)"
  using assms
proof (induction keys arbitrary: s)
  case Nil
  from train_loop_Inr [OF Nil.prems] show ?case by auto
next
  case (Cons key rest)
  from train_loop_Inr [OF Cons.prems] show ?case
  proof (elim disjE conjE exE)
    assume "s' = s" then show ?thesis by simp
  next
    fix k r s1
    assume kr: "key # rest = k # r"
      and ep: "epoch on_neg on_pos neg_examples pos_examples w_gen_feas s = Inr s1"
      and rest: "if quit k then s' = s1\<lparr>calls := calls s1 @ [Input_call k]\<rparr>
          else train_loop on_neg on_pos neg_examples pos_examples w_gen_feas r
                 (s1\<lparr>calls := calls s1 @ [Input_call k]\<rparr>) = Inr s'"
    let ?s2 = "s1\<lparr>calls := calls s1 @ [Input_call k]\<rparr>"
    from epoch_Inr [OF ep] obtain m0 m1 where
      d: "record_dist w_gen_feas (w_cur s1) (w_dist_history s) = Inr (w_dist_history s1)"
      and c: "calls s1 = calls s @ [Update_call (w_cur s), Eval_call (w_cur s1),
        Plot_call m0 m1 (num_err_history s1) (w_cur s1) (w_dist_history s1)]"
      by blast
    from record_dist_Inr [OF d] have d2: "\<exists>ds. w_dist_history ?s2 = w_dist_history s @ ds"
      by auto
    from c have c2: "\<exists>cs. calls ?s2 = calls s @ cs" by simp
    show ?thesis
    proof (cases "quit k")
      case True
      with rest c2 d2 show ?thesis by simp
    next
      case False
      with rest kr have "train_loop on_neg on_pos neg_examples pos_examples w_gen_feas rest ?s2 = Inr s'"
        by simp
      from Cons.IH [OF this] c2 d2 show ?thesis by (metis append.assoc)
    qed
  qed
qed

text \<open>
  Claim C9, as amended. With a feasible vector supplied, the first three calls of a run
  that returns are the evaluation of the initial weights, \<open>plot_perceptron\<close> with an
  empty distance history, and \<open>input\<close>. The distance of the initial weights is the first
  entry of the distance history when the line read there does not quit, and the history
  stays empty when it does.
\<close>

theorem initial_distance_after_first_checkpoint:
  assumes "w_gen_feas \<noteq> []"
    and "learn_perceptron on_neg on_pos randn keys neg_examples_nobias pos_examples_nobias
           w_init w_gen_feas = Inr s"
  shows "\<exists>mistakes0 mistakes1 key cs.
     calls s =
       Eval_call (initial_weights w_init randn) #
       Plot_call mistakes0 mistakes1 [length mistakes0 + length mistakes1]
         (initial_weights w_init randn) [] #
       Input_call key # cs \<and>
     (if quit key then w_dist_history s = []
      else (\<exists>d ds. np_sub (initial_weights w_init randn) w_gen_feas = Inr d \<and>
              w_dist_history s = linalg_norm d # ds))"
proof -
  let ?w = "initial_weights w_init randn"
  from learn_perceptron_Inr [OF assms(2)] obtain m0 m1 key rest where
    run: "if quit key then
        s = \<lparr>w_cur = ?w, num_errs = length m0 + length m1,
             num_err_history = [length m0 + length m1], w_dist_history = [], iter = 0,
             calls = [Eval_call ?w, Plot_call m0 m1 [length m0 + length m1] ?w [],
                      Input_call key]\<rparr>
      else
        (\<exists>dists. record_dist w_gen_feas ?w [] = Inr dists \<and>
           train_loop on_neg on_pos (augment neg_examples_nobias) (augment pos_examples_nobias)
             w_gen_feas rest
             \<lparr>w_cur = ?w, num_errs = length m0 + length m1,
              num_err_history = [length m0 + length m1], w_dist_history = dists, iter = 0,
              calls = [Eval_call ?w, Plot_call m0 m1 [length m0 + length m1] ?w [],
                       Input_call key]\<rparr> = Inr s)"
    by blast
  show ?thesis
  proof (cases "quit key")
    case True
    with run show ?thesis by auto
  next
    case False
    with run obtain dists where
      rd: "record_dist w_gen_feas ?w [] = Inr dists"
      and tl: "train_loop on_neg on_pos (augment neg_examples_nobias) (augment pos_examples_nobias)
             w_gen_feas rest
             \<lparr>w_cur = ?w, num_errs = length m0 + length m1,
              num_err_history = [length m0 + length m1], w_dist_history = dists, iter = 0,
              calls = [Eval_call ?w, Plot_call m0 m1 [length m0 + length m1] ?w [],
                       Input_call key]\<rparr> = Inr s"
      by auto
    from record_dist_Inr [OF rd] assms(1) obtain d where
      d: "np_sub ?w w_gen_feas = Inr d" and dists: "dists = [linalg_norm d]"
      by auto
    from train_loop_extends [OF tl] obtain cs ds where
      "calls s = [Eval_call ?w, Plot_call m0 m1 [length m0 + length m1] ?w [], Input_call key] @ cs"
      and "w_dist_history s = dists @ ds"
      by auto
    with d dists False show ?thesis by auto
  qed
qed

lemma run_feasible:
  "learn_perceptron sub_example add_example (0, 0, 0) ['''']
     [[-1, -1]] [[1, 1]] [2, 2, -1] [1, 1, -1] =
   Inr \<lparr>w_cur = [2, 2, -1], num_errs = 0, num_err_history = [0],
        w_dist_history = [linalg_norm [1, 1, 0]], iter = 0,
        calls = [Eval_call [2, 2, -1], Plot_call [] [] [0] [2, 2, -1] [], Input_call '''']\<rparr>"
  by (simp add: learn_perceptron_def initial_weights_def augment_def eval_perceptron_def dot_def
      quit_def record_dist_def np_sub_def Let_def)

theorem initial_distance_after_first_checkpoint_witness:
  "\<exists>s. learn_perceptron sub_example add_example (0, 0, 0) ['''']
          [[-1, -1]] [[1, 1]] [2, 2, -1] [1, 1, -1] = Inr s \<and>
       plot_w_dist_history (calls s ! 1) = [] \<and>
       w_dist_history s = [linalg_norm [1, 1, 0]]"
proof -
  have a: "[1, 1, -1 :: real] \<noteq> []" by simp
  from initial_distance_after_first_checkpoint [OF a run_feasible]
  show ?thesis by (simp add: run_feasible)
qed

text \<open>
  Claim C9 as stated fails: in this run the feasible vector \<open>(2, 2, -1)\<close> is supplied,
  \<open>plot_perceptron\<close> is called once, with an empty distance history, and the distance
  of the initial weights is appended after the line was read.
\<close>

theorem epoch0_plot_counterexample:
  "learn_perceptron sub_example add_example (0, 0, 0) ['''']
     [[-1, -1]] [[1, 1]] [1, 1, -1] [2, 2, -1] =
   Inr \<lparr>w_cur = [1, 1, -1], num_errs = 0, num_err_history = [0],
        w_dist_history = [linalg_norm [-1, -1, 0]], iter = 0,
        calls = [Eval_call [1, 1, -1], Plot_call [] [] [0] [1, 1, -1] [], Input_call '''']\<rparr>"
  by (simp add: learn_perceptron_def initial_weights_def augment_def eval_perceptron_def dot_def
      quit_def record_dist_def np_sub_def Let_def)

lemma set_butlast_snoc_last:
  "xs \<noteq> [] \<Longrightarrow> set xs = insert (last xs) (set (butlast xs))"
  by (induction xs) auto

lemma train_loop_checkpoints:
  assumes "train_loop on_neg on_pos neg_examples pos_examples w_gen_feas keys s = Inr s'"
    and "length (keys_read (calls s)) = length (num_err_history s)"
    and "\<forall>e\<in>set (butlast (num_err_history s)). 0 < e"
    and "\<forall>k\<in>set (keys_read (calls s)). \<not> quit k"
    and "num_err_history s \<noteq> []"
    and "last (num_err_history s) = num_errs s"
  shows "(\<exists>rest. keys_read (calls s) @ keys = keys_read (calls s') @ rest) \<and>
     length (keys_read (calls s')) = length (num_err_history s') \<and>
     (\<forall>e\<in>set (butlast (num_err_history s')). 0 < e) \<and>
     (\<forall>k\<in>set (butlast (keys_read (calls s'))). \<not> quit k) \<and>
     num_err_history s' \<noteq> [] \<and>
     (last (num_err_history s') = 0 \<or> quit (last (keys_read (calls s'))))"
  using assms
proof (induction keys arbitrary: s)
  case Nil
  from train_loop_Inr [OF Nil.prems(1)] have "num_errs s = 0" and "s' = s" by auto
  with Nil.prems show ?case by (auto dest: in_set_butlastD)
next
  case (Cons key rest)
  from train_loop_Inr [OF Cons.prems(1)] show ?case
  proof (elim disjE conjE exE)
    assume "num_errs s = 0" and "s' = s"
    with Cons.prems show ?thesis by (auto dest: in_set_butlastD)
  next
    fix k r s1
    assume pos: "0 < num_errs s"
      and kr: "key # rest = k # r"
      and ep: "epoch on_neg on_pos neg_examples pos_examples w_gen_feas s = Inr s1"
      and rest: "if quit k then s' = s1\<lparr>calls := calls s1 @ [Input_call k]\<rparr>
          else train_loop on_neg on_pos neg_examples pos_examples w_gen_feas r
                 (s1\<lparr>calls := calls s1 @ [Input_call k]\<rparr>) = Inr s'"
    define s2 where "s2 = s1\<lparr>calls := calls s1 @ [Input_call k]\<rparr>"
    note rest = rest [folded s2_def]
    from kr have k: "k = key" and r: "r = rest" by simp_all
    from epoch_Inr [OF ep] obtain m0 m1 where
      h: "num_err_history s1 = num_err_history s @ [num_errs s1]"
      and c: "calls s1 = calls s @ [Update_call (w_cur s), Eval_call (w_cur s1),
        Plot_call m0 m1 (num_err_history s1) (w_cur s1) (w_dist_history s1)]"
      by blast
    have ks: "keys_read (calls s2) = keys_read (calls s) @ [key]"
      by (simp add: s2_def c k keys_read_append)
    have hs: "num_err_history s2 = num_err_history s @ [num_errs s1]"
      by (simp add: s2_def h)
    have ne: "num_errs s2 = num_errs s1"
      by (simp add: s2_def)
    have allpos: "\<forall>e\<in>set (num_err_history s). 0 < e"
      using set_butlast_snoc_last [OF Cons.prems(5)] Cons.prems(3,6) pos by auto
    show ?thesis
    proof (cases "quit key")
      case True
      with rest k have s': "s' = s2" by simp
      have "keys_read (calls s) @ key # rest = keys_read (calls s') @ rest"
        by (simp add: s' ks)
      moreover have "length (keys_read (calls s')) = length (num_err_history s')"
        unfolding s' ks hs using Cons.prems(2) by simp
      moreover have "\<forall>e\<in>set (butlast (num_err_history s')). 0 < e"
        unfolding s' hs using allpos by simp
      moreover have "\<forall>k\<in>set (butlast (keys_read (calls s'))). \<not> quit k"
        unfolding s' ks using Cons.prems(4) by simp
      moreover have "num_err_history s' \<noteq> []" unfolding s' hs by simp
      moreover have "quit (last (keys_read (calls s')))" unfolding s' ks using True by simp
      ultimately show ?thesis by blast
    next
      case False
      with rest k r have tl: "train_loop on_neg on_pos neg_examples pos_examples w_gen_feas rest s2 = Inr s'"
        by simp
      have i2: "length (keys_read (calls s2)) = length (num_err_history s2)"
        unfolding ks hs using Cons.prems(2) by simp
      have i3: "\<forall>e\<in>set (butlast (num_err_history s2)). 0 < e"
        unfolding hs using allpos by simp
      have i4: "\<forall>k\<in>set (keys_read (calls s2)). \<not> quit k"
        unfolding ks using Cons.prems(4) False by simp
      have i5: "num_err_history s2 \<noteq> []" unfolding hs by simp
      have i6: "last (num_err_history s2) = num_errs s2" unfolding hs ne by simp
      from Cons.IH [OF tl i2 i3 i4 i5 i6] show ?thesis
        unfolding ks by simp
    qed
  qed
qed

lemma train_loop_last_checkpoint:
  assumes "train_loop on_neg on_pos neg_examples pos_examples w_gen_feas keys s = Inr s'"
    and "\<exists>cs mistakes0 mistakes1 dists key.
           calls s = cs @ [Eval_call (w_cur s),
             Plot_call mistakes0 mistakes1 (num_err_history s) (w_cur s) dists, Input_call key] \<and>
           eval_perceptron neg_examples pos_examples (w_cur s) = Inr (mistakes0, mistakes1) \<and>
           num_errs s = length mistakes0 + length mistakes1"
  shows "\<exists>cs mistakes0 mistakes1 dists key.
           calls s' = cs @ [Eval_call (w_cur s'),
             Plot_call mistakes0 mistakes1 (num_err_history s') (w_cur s') dists, Input_call key] \<and>
           eval_perceptron neg_examples pos_examples (w_cur s') = Inr (mistakes0, mistakes1) \<and>
           num_errs s' = length mistakes0 + length mistakes1"
  using assms
proof (induction keys arbitrary: s)
  case Nil
  from train_loop_Inr [OF Nil.prems(1)] have "s' = s" by auto
  with Nil.prems(2) show ?case by simp
next
  case (Cons key rest)
  from train_loop_Inr [OF Cons.prems(1)] show ?case
  proof (elim disjE conjE exE)
    assume "s' = s"
    with Cons.prems(2) show ?thesis by simp
  next
    fix k r s1
    assume kr: "key # rest = k # r"
      and ep: "epoch on_neg on_pos neg_examples pos_examples w_gen_feas s = Inr s1"
      and rest: "if quit k then s' = s1\<lparr>calls := calls s1 @ [Input_call k]\<rparr>
          else train_loop on_neg on_pos neg_examples pos_examples w_gen_feas r
                 (s1\<lparr>calls := calls s1 @ [Input_call k]\<rparr>) = Inr s'"
    let ?s2 = "s1\<lparr>calls := calls s1 @ [Input_call k]\<rparr>"
    from epoch_Inr [OF ep] obtain m0 m1 where
      ev: "eval_perceptron neg_examples pos_examples (w_cur s1) = Inr (m0, m1)"
      and n: "num_errs s1 = length m0 + length m1"
      and c: "calls s1 = calls s @ [Update_call (w_cur s), Eval_call (w_cur s1),
        Plot_call m0 m1 (num_err_history s1) (w_cur s1) (w_dist_history s1)]"
      by blast
    have "calls ?s2 = (calls s @ [Update_call (w_cur s)]) @ [Eval_call (w_cur ?s2),
             Plot_call m0 m1 (num_err_history ?s2) (w_cur ?s2) (w_dist_history s1), Input_call k]"
      by (simp add: c)
    with ev n have inv: "\<exists>cs mistakes0 mistakes1 dists key.
           calls ?s2 = cs @ [Eval_call (w_cur ?s2),
             Plot_call mistakes0 mistakes1 (num_err_history ?s2) (w_cur ?s2) dists, Input_call key] \<and>
           eval_perceptron neg_examples pos_examples (w_cur ?s2) = Inr (mistakes0, mistakes1) \<and>
           num_errs ?s2 = length mistakes0 + length mistakes1"
      by (intro exI [of _ "calls s @ [Update_call (w_cur s)]"] exI [of _ m0] exI [of _ m1]
          exI [of _ "w_dist_history s1"] exI [of _ k]) simp
    show ?thesis
    proof (cases "quit k")
      case True
      with rest have "s' = ?s2" by simp
      with inv show ?thesis by simp
    next
      case False
      with rest kr have "train_loop on_neg on_pos neg_examples pos_examples w_gen_feas rest ?s2 = Inr s'"
        by simp
      from Cons.IH [OF this inv] show ?thesis .
    qed
  qed
qed

lemma train_loop_num_errs:
  assumes "train_loop on_neg on_pos neg_examples pos_examples w_gen_feas keys s = Inr s'"
    and "num_err_history s \<noteq> []" and "last (num_err_history s) = num_errs s"
  shows "last (num_err_history s') = num_errs s'"
  using assms
proof (induction keys arbitrary: s)
  case Nil
  from train_loop_Inr [OF Nil.prems(1)] Nil.prems(3) show ?case by auto
next
  case (Cons key rest)
  from train_loop_Inr [OF Cons.prems(1)] show ?case
  proof (elim disjE conjE exE)
    assume "s' = s"
    with Cons.prems(3) show ?thesis by simp
  next
    fix k r s1
    assume kr: "key # rest = k # r"
      and ep: "epoch on_neg on_pos neg_examples pos_examples w_gen_feas s = Inr s1"
      and rest: "if quit k then s' = s1\<lparr>calls := calls s1 @ [Input_call k]\<rparr>
          else train_loop on_neg on_pos neg_examples pos_examples w_gen_feas r
                 (s1\<lparr>calls := calls s1 @ [Input_call k]\<rparr>) = Inr s'"
    let ?s2 = "s1\<lparr>calls := calls s1 @ [Input_call k]\<rparr>"
    from epoch_Inr [OF ep] have h: "num_err_history s1 = num_err_history s @ [num_errs s1]"
      by blast
    then have a: "num_err_history ?s2 \<noteq> []" and b: "last (num_err_history ?s2) = num_errs ?s2"
      by simp_all
    show ?thesis
    proof (cases "quit k")
      case True
      with rest b show ?thesis by simp
    next
      case False
      with rest kr have "train_loop on_neg on_pos neg_examples pos_examples w_gen_feas rest ?s2 = Inr s'"
        by simp
      from Cons.IH [OF this a b] show ?thesis .
    qed
  qed
qed

lemma learn_perceptron_checkpoints:
  assumes "learn_perceptron on_neg on_pos randn keys neg_examples_nobias pos_examples_nobias
             w_init w_gen_feas = Inr s"
  shows "(\<exists>rest. keys = keys_read (calls s) @ rest) \<and>
     length (keys_read (calls s)) = length (num_err_history s) \<and>
     (\<forall>e\<in>set (butlast (num_err_history s)). 0 < e) \<and>
     (\<forall>k\<in>set (butlast (keys_read (calls s))). \<not> quit k) \<and>
     (last (num_err_history s) = 0 \<or> quit (last (keys_read (calls s)))) \<and>
     (\<exists>cs mistakes0 mistakes1 dists key.
        calls s = cs @ [Eval_call (w_cur s),
          Plot_call mistakes0 mistakes1 (num_err_history s) (w_cur s) dists, Input_call key] \<and>
        eval_perceptron (augment neg_examples_nobias) (augment pos_examples_nobias) (w_cur s)
          = Inr (mistakes0, mistakes1) \<and>
        last (num_err_history s) = length mistakes0 + length mistakes1)"
proof -
  let ?w = "initial_weights w_init randn"
  from learn_perceptron_Inr [OF assms] obtain m0 m1 key rest where
    keys: "keys = key # rest"
    and ev: "eval_perceptron (augment neg_examples_nobias) (augment pos_examples_nobias) ?w
               = Inr (m0, m1)"
    and run: "if quit key then
        s = \<lparr>w_cur = ?w, num_errs = length m0 + length m1,
             num_err_history = [length m0 + length m1], w_dist_history = [], iter = 0,
             calls = [Eval_call ?w, Plot_call m0 m1 [length m0 + length m1] ?w [],
                      Input_call key]\<rparr>
      else
        (\<exists>dists. record_dist w_gen_feas ?w [] = Inr dists \<and>
           train_loop on_neg on_pos (augment neg_examples_nobias) (augment pos_examples_nobias)
             w_gen_feas rest
             \<lparr>w_cur = ?w, num_errs = length m0 + length m1,
              num_err_history = [length m0 + length m1], w_dist_history = dists, iter = 0,
              calls = [Eval_call ?w, Plot_call m0 m1 [length m0 + length m1] ?w [],
                       Input_call key]\<rparr> = Inr s)"
    by blast
  show ?thesis
  proof (cases "quit key")
    case True
    with run have s: "s = \<lparr>w_cur = ?w, num_errs = length m0 + length m1,
             num_err_history = [length m0 + length m1], w_dist_history = [], iter = 0,
             calls = [Eval_call ?w, Plot_call m0 m1 [length m0 + length m1] ?w [],
                      Input_call key]\<rparr>"
      by simp
    show ?thesis unfolding s using True ev keys by simp
  next
    case False
    with run obtain dists where
      tl: "train_loop on_neg on_pos (augment neg_examples_nobias) (augment pos_examples_nobias)
             w_gen_feas rest
             \<lparr>w_cur = ?w, num_errs = length m0 + length m1,
              num_err_history = [length m0 + length m1], w_dist_history = dists, iter = 0,
              calls = [Eval_call ?w, Plot_call m0 m1 [length m0 + length m1] ?w [],
                       Input_call key]\<rparr> = Inr s"
      by auto
    let ?s0 = "\<lparr>w_cur = ?w, num_errs = length m0 + length m1,
              num_err_history = [length m0 + length m1], w_dist_history = dists, iter = 0,
              calls = [Eval_call ?w, Plot_call m0 m1 [length m0 + length m1] ?w [],
                       Input_call key]\<rparr>"
    have a: "(\<exists>rest'. keys_read (calls ?s0) @ rest = keys_read (calls s) @ rest') \<and>
     length (keys_read (calls s)) = length (num_err_history s) \<and>
     (\<forall>e\<in>set (butlast (num_err_history s)). 0 < e) \<and>
     (\<forall>k\<in>set (butlast (keys_read (calls s))). \<not> quit k) \<and>
     num_err_history s \<noteq> [] \<and>
     (last (num_err_history s) = 0 \<or> quit (last (keys_read (calls s))))"
      using False by (intro train_loop_checkpoints [OF tl]) simp_all
    have "\<exists>cs mistakes0 mistakes1 dists key.
           calls ?s0 = cs @ [Eval_call (w_cur ?s0),
             Plot_call mistakes0 mistakes1 (num_err_history ?s0) (w_cur ?s0) dists, Input_call key] \<and>
           eval_perceptron (augment neg_examples_nobias) (augment pos_examples_nobias) (w_cur ?s0)
             = Inr (mistakes0, mistakes1) \<and>
           num_errs ?s0 = length mistakes0 + length mistakes1"
      using ev by (intro exI [of _ "[]"] exI [of _ m0] exI [of _ m1] exI [of _ "[]"]
          exI [of _ key]) simp
    from train_loop_last_checkpoint [OF tl this] obtain cs n0 n1 ds k where
      b: "calls s = cs @ [Eval_call (w_cur s),
             Plot_call n0 n1 (num_err_history s) (w_cur s) ds, Input_call k]"
      "eval_perceptron (augment neg_examples_nobias) (augment pos_examples_nobias) (w_cur s)
         = Inr (n0, n1)"
      "num_errs s = length n0 + length n1"
      by blast
    have c: "last (num_err_history s) = num_errs s"
      by (rule train_loop_num_errs [OF tl]) simp_all
    from a have "\<exists>rest'. keys = keys_read (calls s) @ rest'" by (simp add: keys)
    with a b c show ?thesis by auto
  qed
qed

lemma update_neg_returns:
  assumes "\<forall>w x. length x = length w \<longrightarrow> length (on_neg w x) = length w"
    and "\<forall>x\<in>set xs. length x = length w"
  shows "\<exists>w'. update_neg on_neg xs w = Inr w' \<and> length w' = length w"
  using assms(2)
proof (induction xs arbitrary: w)
  case Nil
  then show ?case by simp
next
  case (Cons x rest)
  then have len: "length x = length w" by simp
  let ?w = "if sum_list (map2 (*) x w) \<ge> 0 then on_neg w x else w"
  have l: "length ?w = length w" using assms(1) len by simp
  with Cons.prems have "\<forall>y\<in>set rest. length y = length ?w" by simp
  from Cons.IH [OF this] l show ?case
    by (simp add: dot_ok [OF len])
qed

lemma update_pos_returns:
  assumes "\<forall>w x. length x = length w \<longrightarrow> length (on_pos w x) = length w"
    and "\<forall>x\<in>set xs. length x = length w"
  shows "\<exists>w'. update_pos on_pos xs w = Inr w' \<and> length w' = length w"
  using assms(2)
proof (induction xs arbitrary: w)
  case Nil
  then show ?case by simp
next
  case (Cons x rest)
  then have len: "length x = length w" by simp
  let ?w = "if sum_list (map2 (*) x w) < 0 then on_pos w x else w"
  have l: "length ?w = length w" using assms(1) len by simp
  with Cons.prems have "\<forall>y\<in>set rest. length y = length ?w" by simp
  from Cons.IH [OF this] l show ?case
    by (simp add: dot_ok [OF len])
qed

lemma update_weights_returns:
  assumes "\<forall>w x. length x = length w \<longrightarrow>
             length (on_neg w x) = length w \<and> length (on_pos w x) = length w"
    and "\<forall>x\<in>set (neg_examples @ pos_examples). length x = length w"
  shows "\<exists>w'. update_weights on_neg on_pos neg_examples pos_examples w = Inr w' \<and>
               length w' = length w"
proof -
  from assms obtain w1 where w1: "update_neg on_neg neg_examples w = Inr w1"
    and l1: "length w1 = length w"
    using update_neg_returns [of on_neg neg_examples w] by auto
  from assms l1 obtain w2 where "update_pos on_pos pos_examples w1 = Inr w2"
    and "length w2 = length w1"
    using update_pos_returns [of on_pos pos_examples w1] by auto
  with w1 l1 show ?thesis by (simp add: update_weights_def)
qed

lemma record_dist_returns:
  assumes "w_gen_feas = [] \<or> length w_gen_feas = length w \<or> length w_gen_feas = 1 \<or> length w = 1"
  shows "\<exists>h'. record_dist w_gen_feas w h = Inr h'"
  using assms by (auto simp: record_dist_def np_sub_def)

lemma epoch_returns:
  assumes pres: "\<forall>w x. length x = length w \<longrightarrow>
             length (on_neg w x) = length w \<and> length (on_pos w x) = length w"
    and shapes: "\<forall>x\<in>set (neg_examples @ pos_examples). length x = length (w_cur s)"
    and feas: "w_gen_feas = [] \<or> length w_gen_feas = length (w_cur s) \<or>
               length w_gen_feas = 1 \<or> length (w_cur s) = 1"
  shows "\<exists>s'. epoch on_neg on_pos neg_examples pos_examples w_gen_feas s = Inr s' \<and>
              length (w_cur s') = length (w_cur s)"
proof -
  from update_weights_returns [OF pres shapes] obtain w where
    w: "update_weights on_neg on_pos neg_examples pos_examples (w_cur s) = Inr w"
    and l: "length w = length (w_cur s)"
    by blast
  from feas l have "w_gen_feas = [] \<or> length w_gen_feas = length w \<or>
               length w_gen_feas = 1 \<or> length w = 1"
    by simp
  from record_dist_returns [OF this] obtain h where
    h: "record_dist w_gen_feas w (w_dist_history s) = Inr h"
    by blast
  from shapes l have "\<forall>x\<in>set (neg_examples @ pos_examples). length x = length w" by simp
  from eval_perceptron_returns [OF this] obtain m0 m1 where
    "eval_perceptron neg_examples pos_examples w = Inr (m0, m1)"
    by blast
  with w h l show ?thesis by (simp add: epoch_def)
qed

lemma sweeps_Suc_end:
  "sweeps on_neg on_pos neg_examples pos_examples n w0 = Inr w \<Longrightarrow>
   update_weights on_neg on_pos neg_examples pos_examples w = Inr w' \<Longrightarrow>
   sweeps on_neg on_pos neg_examples pos_examples (Suc n) w0 = Inr w'"
proof (induction n arbitrary: w0)
  case 0
  then show ?case by simp
next
  case (Suc n)
  from Suc.prems(1) obtain w1 where
    u: "update_weights on_neg on_pos neg_examples pos_examples w0 = Inr w1"
    and r: "sweeps on_neg on_pos neg_examples pos_examples n w1 = Inr w"
    by (auto split: sum.splits)
  from Suc.IH [OF r Suc.prems(2)] u show ?case by simp
qed

lemma train_loop_sweeps:
  assumes "train_loop on_neg on_pos neg_examples pos_examples w_gen_feas keys s = Inr s'"
    and "sweeps on_neg on_pos neg_examples pos_examples (iter s) w0 = Inr (w_cur s)"
  shows "sweeps on_neg on_pos neg_examples pos_examples (iter s') w0 = Inr (w_cur s')"
  using assms
proof (induction keys arbitrary: s)
  case Nil
  from train_loop_Inr [OF Nil.prems(1)] Nil.prems(2) show ?case by auto
next
  case (Cons key rest)
  from train_loop_Inr [OF Cons.prems(1)] show ?case
  proof (elim disjE conjE exE)
    assume "s' = s"
    with Cons.prems(2) show ?thesis by simp
  next
    fix k r s1
    assume kr: "key # rest = k # r"
      and ep: "epoch on_neg on_pos neg_examples pos_examples w_gen_feas s = Inr s1"
      and rest: "if quit k then s' = s1\<lparr>calls := calls s1 @ [Input_call k]\<rparr>
          else train_loop on_neg on_pos neg_examples pos_examples w_gen_feas r
                 (s1\<lparr>calls := calls s1 @ [Input_call k]\<rparr>) = Inr s'"
    define s2 where "s2 = s1\<lparr>calls := calls s1 @ [Input_call k]\<rparr>"
    note rest = rest [folded s2_def]
    from epoch_Inr [OF ep] have
      u: "update_weights on_neg on_pos neg_examples pos_examples (w_cur s) = Inr (w_cur s1)"
      and i: "iter s1 = iter s + 1"
      by blast+
    from sweeps_Suc_end [OF Cons.prems(2) u]
    have inv: "sweeps on_neg on_pos neg_examples pos_examples (iter s2) w0 = Inr (w_cur s2)"
      by (simp add: s2_def i)
    show ?thesis
    proof (cases "quit k")
      case True
      with rest inv show ?thesis by simp
    next
      case False
      with rest kr have "train_loop on_neg on_pos neg_examples pos_examples w_gen_feas rest s2 = Inr s'"
        by simp
      from Cons.IH [OF this inv] show ?thesis .
    qed
  qed
qed

lemma train_loop_halts_at:
  assumes pres: "\<forall>w x. length x = length w \<longrightarrow>
             length (on_neg w x) = length w \<and> length (on_pos w x) = length w"
    and shapes: "\<forall>x\<in>set (neg_examples @ pos_examples). length x = length (w_cur s)"
    and feas: "w_gen_feas = [] \<or> length w_gen_feas = length (w_cur s) \<or>
               length w_gen_feas = 1 \<or> length (w_cur s) = 1"
    and pos: "0 < num_errs s"
    and n: "n < length keys"
    and before: "\<forall>i<n. \<not> quit (keys ! i) \<and>
       (\<exists>w a b. sweeps on_neg on_pos neg_examples pos_examples (Suc i) (w_cur s) = Inr w \<and>
                eval_perceptron neg_examples pos_examples w = Inr (a, b) \<and>
                0 < length a + length b)"
    and at: "quit (keys ! n) \<or>
       (\<exists>w. sweeps on_neg on_pos neg_examples pos_examples (Suc n) (w_cur s) = Inr w \<and>
            eval_perceptron neg_examples pos_examples w = Inr ([], []))"
  shows "\<exists>s'. train_loop on_neg on_pos neg_examples pos_examples w_gen_feas keys s = Inr s' \<and>
              iter s' = iter s + Suc n \<and>
              sweeps on_neg on_pos neg_examples pos_examples (Suc n) (w_cur s) = Inr (w_cur s')"
  using shapes feas pos n before at
proof (induction keys arbitrary: s n)
  case Nil
  then show ?case by simp
next
  case (Cons key rest)
  from epoch_returns [OF pres Cons.prems(1,2)] obtain s1 where
    ep: "epoch on_neg on_pos neg_examples pos_examples w_gen_feas s = Inr s1"
    and l: "length (w_cur s1) = length (w_cur s)"
    by blast
  define s2 where "s2 = s1\<lparr>calls := calls s1 @ [Input_call key]\<rparr>"
  from epoch_Inr [OF ep] obtain m0 m1 where
    u: "update_weights on_neg on_pos neg_examples pos_examples (w_cur s) = Inr (w_cur s1)"
    and ev: "eval_perceptron neg_examples pos_examples (w_cur s1) = Inr (m0, m1)"
    and ne: "num_errs s1 = length m0 + length m1"
    and i: "iter s1 = iter s + 1"
    by blast
  have w2: "w_cur s2 = w_cur s1" and n2: "num_errs s2 = num_errs s1" and i2: "iter s2 = iter s + 1"
    by (simp_all add: s2_def i)
  have sw: "\<And>j. sweeps on_neg on_pos neg_examples pos_examples (Suc j) (w_cur s) =
                 sweeps on_neg on_pos neg_examples pos_examples j (w_cur s2)"
    by (simp add: u w2)
  have step: "train_loop on_neg on_pos neg_examples pos_examples w_gen_feas (key # rest) s =
      (if quit key then Inr s2
       else train_loop on_neg on_pos neg_examples pos_examples w_gen_feas rest s2)"
    using Cons.prems(3) by (simp add: ep s2_def)
  show ?case
  proof (cases "quit key")
    case True
    have "n = 0"
    proof (rule ccontr)
      assume "n \<noteq> 0"
      then have "0 < n" by simp
      with Cons.prems(5) have "\<not> quit ((key # rest) ! 0)" by blast
      with True show False by simp
    qed
    with True step i2 sw [of 0] show ?thesis by simp
  next
    case False
    show ?thesis
    proof (cases n)
      case 0
      with Cons.prems(6) False obtain w where
        A: "sweeps on_neg on_pos neg_examples pos_examples (Suc 0) (w_cur s) = Inr w"
        and B: "eval_perceptron neg_examples pos_examples w = Inr ([], [])"
        by auto
      from A [unfolded sw [of 0]] have "w = w_cur s1" by (simp add: w2)
      with B ev ne n2 have z: "num_errs s2 = 0" by simp
      have "train_loop on_neg on_pos neg_examples pos_examples w_gen_feas rest s2 = Inr s2"
        using z by (cases rest) simp_all
      with False step 0 i2 sw [of 0] show ?thesis by simp
    next
      case (Suc n')
      from Cons.prems(5) Suc obtain w a b where
        A: "sweeps on_neg on_pos neg_examples pos_examples (Suc 0) (w_cur s) = Inr w"
        and B: "eval_perceptron neg_examples pos_examples w = Inr (a, b)"
        and C: "0 < length a + length b"
        by force
      from A [unfolded sw [of 0]] have "w = w_cur s1" by (simp add: w2)
      with B C ev ne n2 have p2: "0 < num_errs s2" by simp
      have sh2: "\<forall>x\<in>set (neg_examples @ pos_examples). length x = length (w_cur s2)"
        using Cons.prems(1) l w2 by simp
      have f2: "w_gen_feas = [] \<or> length w_gen_feas = length (w_cur s2) \<or>
               length w_gen_feas = 1 \<or> length (w_cur s2) = 1"
        using Cons.prems(2) l w2 by simp
      have nn: "n' < length rest" using Cons.prems(4) Suc by simp
      have b2: "\<forall>i<n'. \<not> quit (rest ! i) \<and>
       (\<exists>w a b. sweeps on_neg on_pos neg_examples pos_examples (Suc i) (w_cur s2) = Inr w \<and>
                eval_perceptron neg_examples pos_examples w = Inr (a, b) \<and>
                0 < length a + length b)"
      proof (intro allI impI)
        fix i assume "i < n'"
        then have "Suc i < n" using Suc by simp
        with Cons.prems(5) have "\<not> quit ((key # rest) ! Suc i) \<and>
          (\<exists>w a b. sweeps on_neg on_pos neg_examples pos_examples (Suc (Suc i)) (w_cur s) = Inr w \<and>
                eval_perceptron neg_examples pos_examples w = Inr (a, b) \<and>
                0 < length a + length b)"
          by blast
        then show "\<not> quit (rest ! i) \<and>
          (\<exists>w a b. sweeps on_neg on_pos neg_examples pos_examples (Suc i) (w_cur s2) = Inr w \<and>
                eval_perceptron neg_examples pos_examples w = Inr (a, b) \<and>
                0 < length a + length b)"
          unfolding sw [of "Suc i"] by simp
      qed
      have a2: "quit (rest ! n') \<or>
       (\<exists>w. sweeps on_neg on_pos neg_examples pos_examples (Suc n') (w_cur s2) = Inr w \<and>
            eval_perceptron neg_examples pos_examples w = Inr ([], []))"
        using Cons.prems(6) unfolding Suc sw [of "Suc n'"] by simp
      from Cons.IH [OF sh2 f2 p2 nn b2 a2] obtain s' where
        "train_loop on_neg on_pos neg_examples pos_examples w_gen_feas rest s2 = Inr s'"
        and "iter s' = iter s2 + Suc n'"
        and "sweeps on_neg on_pos neg_examples pos_examples (Suc n') (w_cur s2) = Inr (w_cur s')"
        by blast
      with False step Suc i2 sw [of "Suc n'"] show ?thesis by simp
    qed
  qed
qed

lemma learn_perceptron_sweeps:
  assumes "learn_perceptron on_neg on_pos randn keys neg_examples_nobias pos_examples_nobias
             w_init w_gen_feas = Inr s"
  shows "sweeps on_neg on_pos (augment neg_examples_nobias) (augment pos_examples_nobias)
           (iter s) (initial_weights w_init randn) = Inr (w_cur s)"
proof -
  let ?w = "initial_weights w_init randn"
  from learn_perceptron_Inr [OF assms] obtain m0 m1 key rest where
    run: "if quit key then
        s = \<lparr>w_cur = ?w, num_errs = length m0 + length m1,
             num_err_history = [length m0 + length m1], w_dist_history = [], iter = 0,
             calls = [Eval_call ?w, Plot_call m0 m1 [length m0 + length m1] ?w [],
                      Input_call key]\<rparr>
      else
        (\<exists>dists. record_dist w_gen_feas ?w [] = Inr dists \<and>
           train_loop on_neg on_pos (augment neg_examples_nobias) (augment pos_examples_nobias)
             w_gen_feas rest
             \<lparr>w_cur = ?w, num_errs = length m0 + length m1,
              num_err_history = [length m0 + length m1], w_dist_history = dists, iter = 0,
              calls = [Eval_call ?w, Plot_call m0 m1 [length m0 + length m1] ?w [],
                       Input_call key]\<rparr> = Inr s)"
    by blast
  show ?thesis
  proof (cases "quit key")
    case True
    with run show ?thesis by simp
  next
    case False
    with run obtain dists where
      tl: "train_loop on_neg on_pos (augment neg_examples_nobias) (augment pos_examples_nobias)
             w_gen_feas rest
             \<lparr>w_cur = ?w, num_errs = length m0 + length m1,
              num_err_history = [length m0 + length m1], w_dist_history = dists, iter = 0,
              calls = [Eval_call ?w, Plot_call m0 m1 [length m0 + length m1] ?w [],
                       Input_call key]\<rparr> = Inr s"
      by auto
    show ?thesis by (rule train_loop_sweeps [OF tl]) simp
  qed
qed

lemma learn_perceptron_halts_at:
  assumes pres: "\<forall>w x. length x = length w \<longrightarrow>
             length (on_neg w x) = length w \<and> length (on_pos w x) = length w"
    and shapes: "\<forall>x\<in>set (neg_examples_nobias @ pos_examples_nobias).
             length x + 1 = length (initial_weights w_init randn)"
    and feas: "w_gen_feas = [] \<or> length w_gen_feas = length (initial_weights w_init randn) \<or>
               length w_gen_feas = 1 \<or> length (initial_weights w_init randn) = 1"
    and N: "N < length keys"
    and before: "\<forall>j<N. \<not> quit (keys ! j) \<and>
       (\<exists>w a b. sweeps on_neg on_pos (augment neg_examples_nobias) (augment pos_examples_nobias)
                  j (initial_weights w_init randn) = Inr w \<and>
                eval_perceptron (augment neg_examples_nobias) (augment pos_examples_nobias) w
                  = Inr (a, b) \<and>
                0 < length a + length b)"
    and at: "quit (keys ! N) \<or>
       (\<exists>w. sweeps on_neg on_pos (augment neg_examples_nobias) (augment pos_examples_nobias)
              N (initial_weights w_init randn) = Inr w \<and>
            eval_perceptron (augment neg_examples_nobias) (augment pos_examples_nobias) w
              = Inr ([], []))"
  shows "\<exists>s. learn_perceptron on_neg on_pos randn keys neg_examples_nobias pos_examples_nobias
               w_init w_gen_feas = Inr s \<and>
             iter s = N \<and>
             sweeps on_neg on_pos (augment neg_examples_nobias) (augment pos_examples_nobias)
               N (initial_weights w_init randn) = Inr (w_cur s)"
proof -
  let ?w = "initial_weights w_init randn"
  let ?negs = "augment neg_examples_nobias"
  let ?poss = "augment pos_examples_nobias"
  from N obtain key rest where keys: "keys = key # rest" by (cases keys) auto
  have sh: "\<forall>x\<in>set (?negs @ ?poss). length x = length ?w"
    by (rule augment_shapes [OF shapes])
  from eval_perceptron_returns [OF sh] obtain m0 m1 where
    ev: "eval_perceptron ?negs ?poss ?w = Inr (m0, m1)"
    by blast
  show ?thesis
  proof (cases "quit key")
    case True
    have "N = 0"
    proof (rule ccontr)
      assume "N \<noteq> 0"
      then have "0 < N" by simp
      with before have "\<not> quit (keys ! 0)" by blast
      with True keys show False by simp
    qed
    then have N0: "N = 0" .
    have r: "learn_perceptron on_neg on_pos randn keys neg_examples_nobias pos_examples_nobias
               w_init w_gen_feas =
        Inr \<lparr>w_cur = ?w, num_errs = length m0 + length m1,
             num_err_history = [length m0 + length m1], w_dist_history = [], iter = 0,
             calls = [Eval_call ?w, Plot_call m0 m1 [length m0 + length m1] ?w [],
                      Input_call key]\<rparr>"
      unfolding keys using True by (simp add: learn_perceptron_def Let_def ev)
    show ?thesis unfolding r N0 by simp
  next
    case False
    from record_dist_returns [OF feas] obtain dists where
      rd: "record_dist w_gen_feas ?w [] = Inr dists"
      by blast
    define s0 where "s0 = \<lparr>w_cur = ?w, num_errs = length m0 + length m1,
              num_err_history = [length m0 + length m1], w_dist_history = dists, iter = 0,
              calls = [Eval_call ?w, Plot_call m0 m1 [length m0 + length m1] ?w [],
                       Input_call key]\<rparr>"
    have run: "learn_perceptron on_neg on_pos randn keys neg_examples_nobias pos_examples_nobias
               w_init w_gen_feas =
          train_loop on_neg on_pos ?negs ?poss w_gen_feas rest s0"
      using False by (simp add: learn_perceptron_def Let_def keys ev rd s0_def)
    have w0: "w_cur s0 = ?w" and i0: "iter s0 = 0" and n0: "num_errs s0 = length m0 + length m1"
      by (simp_all add: s0_def)
    show ?thesis
    proof (cases N)
      case 0
      with at False keys obtain w where
        "sweeps on_neg on_pos ?negs ?poss 0 ?w = Inr w"
        and "eval_perceptron ?negs ?poss w = Inr ([], [])"
        by auto
      with ev n0 have z: "num_errs s0 = 0" by simp
      have "train_loop on_neg on_pos ?negs ?poss w_gen_feas rest s0 = Inr s0"
        using z by (cases rest) simp_all
      with run 0 w0 i0 show ?thesis by simp
    next
      case (Suc n)
      have "0 < N" using Suc by simp
      with before have "\<exists>w a b. sweeps on_neg on_pos ?negs ?poss 0 ?w = Inr w \<and>
          eval_perceptron ?negs ?poss w = Inr (a, b) \<and> 0 < length a + length b"
        by blast
      then obtain w a b where
        A: "sweeps on_neg on_pos ?negs ?poss 0 ?w = Inr w"
        and B: "eval_perceptron ?negs ?poss w = Inr (a, b)"
        and C: "0 < length a + length b"
        by blast
      from A have "w = ?w" by simp
      with B C ev n0 have p0: "0 < num_errs s0" by simp
      have sh0: "\<forall>x\<in>set (?negs @ ?poss). length x = length (w_cur s0)"
        using sh w0 by simp
      have f0: "w_gen_feas = [] \<or> length w_gen_feas = length (w_cur s0) \<or>
               length w_gen_feas = 1 \<or> length (w_cur s0) = 1"
        using feas w0 by simp
      have nn: "n < length rest" using N Suc keys by simp
      have b0: "\<forall>i<n. \<not> quit (rest ! i) \<and>
       (\<exists>w a b. sweeps on_neg on_pos ?negs ?poss (Suc i) (w_cur s0) = Inr w \<and>
                eval_perceptron ?negs ?poss w = Inr (a, b) \<and>
                0 < length a + length b)"
      proof (intro allI impI)
        fix i assume "i < n"
        then have "Suc i < N" using Suc by simp
        with before have "\<not> quit (keys ! Suc i) \<and>
          (\<exists>w a b. sweeps on_neg on_pos ?negs ?poss (Suc i) ?w = Inr w \<and>
                eval_perceptron ?negs ?poss w = Inr (a, b) \<and>
                0 < length a + length b)"
          by blast
        then show "\<not> quit (rest ! i) \<and>
          (\<exists>w a b. sweeps on_neg on_pos ?negs ?poss (Suc i) (w_cur s0) = Inr w \<and>
                eval_perceptron ?negs ?poss w = Inr (a, b) \<and>
                0 < length a + length b)"
          unfolding w0 keys by simp
      qed
      have a0: "quit (rest ! n) \<or>
       (\<exists>w. sweeps on_neg on_pos ?negs ?poss (Suc n) (w_cur s0) = Inr w \<and>
            eval_perceptron ?negs ?poss w = Inr ([], []))"
        using at unfolding Suc w0 keys by simp
      from train_loop_halts_at [OF pres sh0 f0 p0 nn b0 a0] obtain s' where
        "train_loop on_neg on_pos ?negs ?poss w_gen_feas rest s0 = Inr s'"
        and "iter s' = iter s0 + Suc n"
        and "sweeps on_neg on_pos ?negs ?poss (Suc n) (w_cur s0) = Inr (w_cur s')"
        by blast
      with run Suc w0 i0 show ?thesis by simp
    qed
  qed
qed

text \<open>
  Claim C7. The loop halts exactly at the first checkpoint where the evaluated error count
  is \<open>0\<close> or the line read quits, and returns the weights current there.

  For every run that returns: the lines read are the first lines of \<open>keys\<close>, one per
  entry of the error history; at every checkpoint but the last the error count was
  positive and the line did not quit; at the last one the error count is \<open>0\<close> or the
  line quits; the weight vector returned is the one of the last evaluation and of the last
  call of \<open>plot_perceptron\<close>, and it is what \<open>iter\<close> calls of the updater in a row
  make of the initial weights.

  And the run does return there: when the shapes fit (so that numpy raises nothing),
  checkpoint \<open>N\<close> is the first where the error count is \<open>0\<close> or the line quits, and
  \<open>keys\<close> has a line for it, \<open>learn_perceptron\<close> returns after exactly \<open>N\<close> epochs:
  while errors remain and no line quits, another epoch is executed.
\<close>

theorem halts_on_zero_errors_or_quit:
  "(\<forall>s. learn_perceptron on_neg on_pos randn keys neg_examples_nobias pos_examples_nobias
          w_init w_gen_feas = Inr s \<longrightarrow>
      (\<exists>rest. keys = keys_read (calls s) @ rest) \<and>
      length (keys_read (calls s)) = length (num_err_history s) \<and>
      (\<forall>e\<in>set (butlast (num_err_history s)). 0 < e) \<and>
      (\<forall>k\<in>set (butlast (keys_read (calls s))). \<not> quit k) \<and>
      (last (num_err_history s) = 0 \<or> quit (last (keys_read (calls s)))) \<and>
      (\<exists>cs mistakes0 mistakes1 dists key.
         calls s = cs @ [Eval_call (w_cur s),
           Plot_call mistakes0 mistakes1 (num_err_history s) (w_cur s) dists, Input_call key] \<and>
         eval_perceptron (augment neg_examples_nobias) (augment pos_examples_nobias) (w_cur s)
           = Inr (mistakes0, mistakes1) \<and>
         last (num_err_history s) = length mistakes0 + length mistakes1) \<and>
      sweeps on_neg on_pos (augment neg_examples_nobias) (augment pos_examples_nobias)
        (iter s) (initial_weights w_init randn) = Inr (w_cur s)) \<and>
   ((\<forall>w x. length x = length w \<longrightarrow>
        length (on_neg w x) = length w \<and> length (on_pos w x) = length w) \<and>
    (\<forall>x\<in>set (neg_examples_nobias @ pos_examples_nobias).
        length x + 1 = length (initial_weights w_init randn)) \<and>
    (w_gen_feas = [] \<or> length w_gen_feas = length (initial_weights w_init randn) \<or>
     length w_gen_feas = 1 \<or> length (initial_weights w_init randn) = 1) \<and>
    N < length keys \<and>
    (\<forall>j<N. \<not> quit (keys ! j) \<and>
       (\<exists>w a b. sweeps on_neg on_pos (augment neg_examples_nobias) (augment pos_examples_nobias)
                  j (initial_weights w_init randn) = Inr w \<and>
                eval_perceptron (augment neg_examples_nobias) (augment pos_examples_nobias) w
                  = Inr (a, b) \<and>
                0 < length a + length b)) \<and>
    (quit (keys ! N) \<or>
       (\<exists>w. sweeps on_neg on_pos (augment neg_examples_nobias) (augment pos_examples_nobias)
              N (initial_weights w_init randn) = Inr w \<and>
            eval_perceptron (augment neg_examples_nobias) (augment pos_examples_nobias) w
              = Inr ([], []))) \<longrightarrow>
    (\<exists>s. learn_perceptron on_neg on_pos randn keys neg_examples_nobias pos_examples_nobias
            w_init w_gen_feas = Inr s \<and>
          iter s = N \<and>
          sweeps on_neg on_pos (augment neg_examples_nobias) (augment pos_examples_nobias)
            N (initial_weights w_init randn) = Inr (w_cur s)))"
proof (rule conjI)
  show "\<forall>s. learn_perceptron on_neg on_pos randn keys neg_examples_nobias pos_examples_nobias
          w_init w_gen_feas = Inr s \<longrightarrow>
      (\<exists>rest. keys = keys_read (calls s) @ rest) \<and>
      length (keys_read (calls s)) = length (num_err_history s) \<and>
      (\<forall>e\<in>set (butlast (num_err_history s)). 0 < e) \<and>
      (\<forall>k\<in>set (butlast (keys_read (calls s))). \<not> quit k) \<and>
      (last (num_err_history s) = 0 \<or> quit (last (keys_read (calls s)))) \<and>
      (\<exists>cs mistakes0 mistakes1 dists key.
         calls s = cs @ [Eval_call (w_cur s),
           Plot_call mistakes0 mistakes1 (num_err_history s) (w_cur s) dists, Input_call key] \<and>
         eval_perceptron (augment neg_examples_nobias) (augment pos_examples_nobias) (w_cur s)
           = Inr (mistakes0, mistakes1) \<and>
         last (num_err_history s) = length mistakes0 + length mistakes1) \<and>
      sweeps on_neg on_pos (augment neg_examples_nobias) (augment pos_examples_nobias)
        (iter s) (initial_weights w_init randn) = Inr (w_cur s)"
  proof (rule allI, rule impI)
    fix s
    assume run: "learn_perceptron on_neg on_pos randn keys neg_examples_nobias
        pos_examples_nobias w_init w_gen_feas = Inr s"
    show "(\<exists>rest. keys = keys_read (calls s) @ rest) \<and>
      length (keys_read (calls s)) = length (num_err_history s) \<and>
      (\<forall>e\<in>set (butlast (num_err_history s)). 0 < e) \<and>
      (\<forall>k\<in>set (butlast (keys_read (calls s))). \<not> quit k) \<and>
      (last (num_err_history s) = 0 \<or> quit (last (keys_read (calls s)))) \<and>
      (\<exists>cs mistakes0 mistakes1 dists key.
         calls s = cs @ [Eval_call (w_cur s),
           Plot_call mistakes0 mistakes1 (num_err_history s) (w_cur s) dists, Input_call key] \<and>
         eval_perceptron (augment neg_examples_nobias) (augment pos_examples_nobias) (w_cur s)
           = Inr (mistakes0, mistakes1) \<and>
         last (num_err_history s) = length mistakes0 + length mistakes1) \<and>
      sweeps on_neg on_pos (augment neg_examples_nobias) (augment pos_examples_nobias)
        (iter s) (initial_weights w_init randn) = Inr (w_cur s)"
      using learn_perceptron_checkpoints [OF run] learn_perceptron_sweeps [OF run]
      by (elim conjE, intro conjI) assumption+
  qed
next
  show "(\<forall>w x. length x = length w \<longrightarrow>
        length (on_neg w x) = length w \<and> length (on_pos w x) = length w) \<and>
    (\<forall>x\<in>set (neg_examples_nobias @ pos_examples_nobias).
        length x + 1 = length (initial_weights w_init randn)) \<and>
    (w_gen_feas = [] \<or> length w_gen_feas = length (initial_weights w_init randn) \<or>
     length w_gen_feas = 1 \<or> length (initial_weights w_init randn) = 1) \<and>
    N < length keys \<and>
    (\<forall>j<N. \<not> quit (keys ! j) \<and>
       (\<exists>w a b. sweeps on_neg on_pos (augment neg_examples_nobias) (augment pos_examples_nobias)
                  j (initial_weights w_init randn) = Inr w \<and>
                eval_perceptron (augment neg_examples_nobias) (augment pos_examples_nobias) w
                  = Inr (a, b) \<and>
                0 < length a + length b)) \<and>
    (quit (keys ! N) \<or>
       (\<exists>w. sweeps on_neg on_pos (augment neg_examples_nobias) (augment pos_examples_nobias)
              N (initial_weights w_init randn) = Inr w \<and>
            eval_perceptron (augment neg_examples_nobias) (augment pos_examples_nobias) w
              = Inr ([], []))) \<longrightarrow>
    (\<exists>s. learn_perceptron on_neg on_pos randn keys neg_examples_nobias pos_examples_nobias
            w_init w_gen_feas = Inr s \<and>
          iter s = N \<and>
          sweeps on_neg on_pos (augment neg_examples_nobias) (augment pos_examples_nobias)
            N (initial_weights w_init randn) = Inr (w_cur s))"
  proof (rule impI, elim conjE)
    assume pres: "\<forall>w x. length x = length w \<longrightarrow>
        length (on_neg w x) = length w \<and> length (on_pos w x) = length w"
      and shapes: "\<forall>x\<in>set (neg_examples_nobias @ pos_examples_nobias).
        length x + 1 = length (initial_weights w_init randn)"
      and feas: "w_gen_feas = [] \<or> length w_gen_feas = length (initial_weights w_init randn) \<or>
        length w_gen_feas = 1 \<or> length (initial_weights w_init randn) = 1"
      and N: "N < length keys"
      and before: "\<forall>j<N. \<not> quit (keys ! j) \<and>
       (\<exists>w a b. sweeps on_neg on_pos (augment neg_examples_nobias) (augment pos_examples_nobias)
                  j (initial_weights w_init randn) = Inr w \<and>
                eval_perceptron (augment neg_examples_nobias) (augment pos_examples_nobias) w
                  = Inr (a, b) \<and>
                0 < length a + length b)"
      and at: "quit (keys ! N) \<or>
       (\<exists>w. sweeps on_neg on_pos (augment neg_examples_nobias) (augment pos_examples_nobias)
              N (initial_weights w_init randn) = Inr w \<and>
            eval_perceptron (augment neg_examples_nobias) (augment pos_examples_nobias) w
              = Inr ([], []))"
    show "\<exists>s. learn_perceptron on_neg on_pos randn keys neg_examples_nobias pos_examples_nobias
            w_init w_gen_feas = Inr s \<and>
          iter s = N \<and>
          sweeps on_neg on_pos (augment neg_examples_nobias) (augment pos_examples_nobias)
            N (initial_weights w_init randn) = Inr (w_cur s)"
      by (rule learn_perceptron_halts_at [OF pres shapes feas N before at])
  qed
qed

lemma sweeps_example:
  "sweeps sub_example add_example (augment [[1, 1], [2, 2]]) (augment [[-1, -1], [3, 3]]) 0
     (initial_weights [0, 0, 0] (0, 0, 0)) = Inr [0, 0, 0]"
  "sweeps sub_example add_example (augment [[1, 1], [2, 2]]) (augment [[-1, -1], [3, 3]]) (Suc 0)
     (initial_weights [0, 0, 0] (0, 0, 0)) = Inr [2, 2, 0]"
  "sweeps sub_example add_example (augment [[1, 1], [2, 2]]) (augment [[-1, -1], [3, 3]])
     (Suc (Suc 0)) (initial_weights [0, 0, 0] (0, 0, 0)) = Inr [2, 2, -1]"
  by (simp_all add: initial_weights_def augment_def update_weights_def dot_def sub_example_def
      add_example_def)

lemma eval_example:
  "eval_perceptron (augment [[1, 1], [2, 2]]) (augment [[-1, -1], [3, 3]]) [0, 0, 0]
     = Inr ([0, 1], [])"
  "eval_perceptron (augment [[1, 1], [2, 2]]) (augment [[-1, -1], [3, 3]]) [2, 2, 0]
     = Inr ([0, 1], [0])"
  by (simp_all add: augment_def eval_perceptron_def dot_def)

theorem halts_on_zero_errors_or_quit_witness:
  "\<exists>s. learn_perceptron sub_example add_example (0, 0, 0) ['''', '''', ''q'']
          [[1, 1], [2, 2]] [[-1, -1], [3, 3]] [0, 0, 0] [] = Inr s \<and>
       iter s = 2 \<and> w_cur s = [2, 2, -1]"
proof -
  let ?keys = "['''', '''', ''q'']"
  let ?negs = "augment [[1, 1], [2, 2 :: real]]"
  let ?poss = "augment [[-1, -1], [3, 3 :: real]]"
  let ?w = "initial_weights [0, 0, 0] (0, 0, 0)"
  have pres: "\<forall>w x. length x = length w \<longrightarrow>
        length (sub_example w x) = length w \<and> length (add_example w x) = length w"
    by (simp add: sub_example_def add_example_def)
  have shapes: "\<forall>x\<in>set ([[1, 1], [2, 2 :: real]] @ [[-1, -1], [3, 3]]). length x + 1 = length ?w"
    by (simp add: initial_weights_def)
  have feas: "([] :: real list) = [] \<or> length ([] :: real list) = length ?w \<or>
     length ([] :: real list) = 1 \<or> length ?w = 1"
    by simp
  have N: "Suc (Suc 0) < length ?keys" by simp
  have before: "\<forall>j<Suc (Suc 0). \<not> quit (?keys ! j) \<and>
       (\<exists>w a b. sweeps sub_example add_example ?negs ?poss j ?w = Inr w \<and>
                eval_perceptron ?negs ?poss w = Inr (a, b) \<and> 0 < length a + length b)"
  proof (intro allI impI)
    fix j :: nat
    assume "j < Suc (Suc 0)"
    then consider "j = 0" | "j = Suc 0" by (auto simp: less_Suc_eq)
    then show "\<not> quit (?keys ! j) \<and>
       (\<exists>w a b. sweeps sub_example add_example ?negs ?poss j ?w = Inr w \<and>
                eval_perceptron ?negs ?poss w = Inr (a, b) \<and> 0 < length a + length b)"
    proof cases
      case 1
      have "\<not> quit (?keys ! 0)" by (simp add: quit_def)
      moreover have "\<exists>w a b. sweeps sub_example add_example ?negs ?poss 0 ?w = Inr w \<and>
                eval_perceptron ?negs ?poss w = Inr (a, b) \<and> 0 < length a + length b"
        using sweeps_example(1) eval_example(1) by (intro exI [of _ "[0, 0, 0]"] exI [of _ "[0, 1]"] exI [of _ "[]"]) simp
      ultimately show ?thesis unfolding 1 by blast
    next
      case 2
      have "\<not> quit (?keys ! Suc 0)" by (simp add: quit_def)
      moreover have "\<exists>w a b. sweeps sub_example add_example ?negs ?poss (Suc 0) ?w = Inr w \<and>
                eval_perceptron ?negs ?poss w = Inr (a, b) \<and> 0 < length a + length b"
        using sweeps_example(2) eval_example(2) by (intro exI [of _ "[2, 2, 0]"] exI [of _ "[0, 1]"] exI [of _ "[0]"]) simp
      ultimately show ?thesis unfolding 2 by blast
    qed
  qed
  have at: "quit (?keys ! Suc (Suc 0)) \<or>
       (\<exists>w. sweeps sub_example add_example ?negs ?poss (Suc (Suc 0)) ?w = Inr w \<and>
            eval_perceptron ?negs ?poss w = Inr ([], []))"
    by (simp add: quit_def)
  have "\<exists>s. learn_perceptron sub_example add_example (0, 0, 0) ?keys
          [[1, 1], [2, 2]] [[-1, -1], [3, 3]] [0, 0, 0] [] = Inr s \<and>
       iter s = Suc (Suc 0) \<and>
       sweeps sub_example add_example ?negs ?poss (Suc (Suc 0)) ?w = Inr (w_cur s)"
    by (rule halts_on_zero_errors_or_quit
        [where on_neg = sub_example and on_pos = add_example and randn = "(0, 0, 0)"
           and keys = ?keys and neg_examples_nobias = "[[1, 1], [2, 2]]"
           and pos_examples_nobias = "[[-1, -1], [3, 3]]" and w_init = "[0, 0, 0]"
           and w_gen_feas = "[]" and N = "Suc (Suc 0)", THEN conjunct2, THEN mp])
      (intro conjI pres shapes feas N before at)
  then show ?thesis
    unfolding sweeps_example(3) by auto
qed

end
